theory Spec2Isabelle
  imports Main "HOL-Library.Char_ord" "HOL-Library.List_Lexorder"
begin

section \<open>Python strings and integers\<close>

text \<open>
  Strings are ASCII character lists. \<open>str_int\<close> is the decimal text an f-string
  produces for an integer, \<open>py_int\<close> is \<open>int(s)\<close> on a string: surrounding
  whitespace is stripped, one sign is allowed, and digits may be separated by single
  underscores. \<open>None\<close> stands for the \<open>ValueError\<close> that \<open>int\<close> raises.
\<close>

definition is_digit :: "char \<Rightarrow> bool" where
  "is_digit c = (48 \<le> (of_char c :: nat) \<and> (of_char c :: nat) \<le> 57)"

definition digit_val :: "char \<Rightarrow> nat" where
  "digit_val c = of_char c - 48"

definition digit_char :: "nat \<Rightarrow> char" where
  "digit_char d = ''0123456789'' ! d"

fun str_nat :: "nat \<Rightarrow> string" where
  "str_nat n = (if n < 10 then [digit_char n]
                else str_nat (n div 10) @ [digit_char (n mod 10)])"

declare str_nat.simps [simp del]

definition str_int :: "int \<Rightarrow> string" where
  "str_int i = (if i < 0 then CHR ''-'' # str_nat (nat (- i)) else str_nat (nat i))"

definition is_space :: "char \<Rightarrow> bool" where
  "is_space c = ((9 \<le> (of_char c :: nat) \<and> (of_char c :: nat) \<le> 13)
                 \<or> (28 \<le> (of_char c :: nat) \<and> (of_char c :: nat) \<le> 32))"

definition strip :: "string \<Rightarrow> string" where
  "strip s = rev (dropWhile is_space (rev (dropWhile is_space s)))"

fun digits_acc :: "nat \<Rightarrow> string \<Rightarrow> nat option" where
  "digits_acc a [] = Some a"
| "digits_acc a (c # cs) =
     (if is_digit c then digits_acc (10 * a + digit_val c) cs
      else if c = CHR ''_'' \<and> cs \<noteq> [] \<and> is_digit (hd cs) then digits_acc a cs
      else None)"

definition parse_nat :: "string \<Rightarrow> nat option" where
  "parse_nat s = (case s of [] \<Rightarrow> None
                  | c # cs \<Rightarrow> if is_digit c then digits_acc (digit_val c) cs else None)"

definition py_int :: "string \<Rightarrow> int option" where
  "py_int s = (case strip s of [] \<Rightarrow> None
               | c # cs \<Rightarrow>
                   if c = CHR ''-'' then map_option (\<lambda>n. - int n) (parse_nat cs)
                   else if c = CHR ''+'' then map_option int (parse_nat cs)
                   else map_option int (parse_nat (c # cs)))"

text \<open>\<open>k.startswith(p)\<close> and \<open>k.replace("week", "")\<close> (every occurrence, left to right).\<close>

definition startswith :: "string \<Rightarrow> string \<Rightarrow> bool" where
  "startswith k p = (take (length p) k = p)"

fun remove_week :: "string \<Rightarrow> string" where
  "remove_week [] = []"
| "remove_week (c # cs) =
     (if take 4 (c # cs) = ''week'' then remove_week (drop 4 (c # cs))
      else c # remove_week cs)"

text \<open>\<open>s.lower()\<close> on ASCII text.\<close>

definition lower_char :: "char \<Rightarrow> char" where
  "lower_char c = (if 65 \<le> (of_char c :: nat) \<and> (of_char c :: nat) \<le> 90
                   then ''abcdefghijklmnopqrstuvwxyz'' ! ((of_char c :: nat) - 65) else c)"

definition lower :: "string \<Rightarrow> string" where
  "lower s = map lower_char s"

section \<open>Dictionaries\<close>

text \<open>
  A Python dict is an association list in insertion order with distinct keys.
  Assigning to an existing key keeps its position, assigning to a new key appends.
\<close>

type_synonym ('k, 'v) dict = "('k \<times> 'v) list"

definition dict_get :: "('k, 'v) dict \<Rightarrow> 'k \<Rightarrow> 'v option" where
  "dict_get d k = map_of d k"

definition dict_keys :: "('k, 'v) dict \<Rightarrow> 'k list" where
  "dict_keys d = map fst d"

definition dict_has :: "('k, 'v) dict \<Rightarrow> 'k \<Rightarrow> bool" where
  "dict_has d k = (k \<in> set (dict_keys d))"

fun dict_set :: "('k, 'v) dict \<Rightarrow> 'k \<Rightarrow> 'v \<Rightarrow> ('k, 'v) dict" where
  "dict_set [] k v = [(k, v)]"
| "dict_set ((k', v') # d) k v = (if k' = k then (k, v) # d else (k', v') # dict_set d k v)"

definition dict_del :: "('k, 'v) dict \<Rightarrow> 'k \<Rightarrow> ('k, 'v) dict" where
  "dict_del d k = filter (\<lambda>p. fst p \<noteq> k) d"

section \<open>The ledger document\<close>

text \<open>
  Every dict with a fixed set of keys is a record whose fields are optional:
  \<open>None\<close> is a missing key. The key \<open>"<clientId>Stat"\<close> of a client node is the
  field \<open>Stat\<close>. The empty dict, which Python treats as false, is the record with
  every field \<open>None\<close>. The counters and amounts stored in the document are integers,
  as every write of the program makes them, so the \<open>int(...)\<close> conversions of the
  source are identities on stored numbers; dates, weekdays and statuses are strings.
  The amount of a posting comes from the request body and is any JSON value: its
  conversion \<open>int(amount)\<close> can raise and is modelled by \<open>py_int_value\<close> below.
\<close>

record all_stats =
  TotalLoans :: "int option"
  ActiveLoans :: "int option"
  ClosedLoans :: "int option"

record client_stat =
  ClientName :: "string option"
  CollectionDay :: "string option"
  LendDate :: "string option"
  Status :: "string option"
  TotalAmountPaid :: "int option"
  WeeksPaid :: "int option"

record entry =
  Amount :: "int option"
  date :: "string option"
  entryStatus :: "string option"

type_synonym collection = "(string, entry) dict"

record client_node =
  Stat :: "client_stat option"
  collectionData :: "collection option"

record batch_info =
  action :: string
  week :: int

type_synonym receipt = "(string, batch_info) dict"

record ledger =
  AllStats :: "all_stats option"
  ClientData :: "(string, client_node) dict option"
  batches :: "(string, receipt) dict option"
  lastBatch :: "unit option"

datatype error =
    UserNodeMissing
  | CorruptStructure
  | UserNotFound
  | ClientNotFound
  | ClientStatMissing
  | ClientClosed
  | MaxWeeksReached
  | ValueError
  | TypeError
  | OverflowError

definition zero_stats :: all_stats where
  "zero_stats = \<lparr>TotalLoans = Some 0, ActiveLoans = Some 0, ClosedLoans = Some 0\<rparr>"

definition empty_stats :: all_stats where
  "empty_stats = \<lparr>TotalLoans = None, ActiveLoans = None, ClosedLoans = None\<rparr>"

definition empty_stat :: client_stat where
  "empty_stat = \<lparr>ClientName = None, CollectionDay = None, LendDate = None,
                  Status = None, TotalAmountPaid = None, WeeksPaid = None\<rparr>"

definition empty_node :: client_node where
  "empty_node = \<lparr>Stat = None, collectionData = None\<rparr>"

definition empty_entry :: entry where
  "empty_entry = \<lparr>Amount = None, date = None, entryStatus = None\<rparr>"

text \<open>\<open>d.get(k, default)\<close> on an optional field.\<close>

definition get_or :: "'a option \<Rightarrow> 'a \<Rightarrow> 'a" where
  "get_or x dflt = (case x of None \<Rightarrow> dflt | Some v \<Rightarrow> v)"

text \<open>\<open>not stat\<close>, \<open>not node\<close>: the value is missing or is the empty dict.\<close>

definition stat_falsy :: "client_stat option \<Rightarrow> bool" where
  "stat_falsy s = (s = None \<or> s = Some empty_stat)"

definition node_falsy :: "client_node option \<Rightarrow> bool" where
  "node_falsy n = (n = None \<or> n = Some empty_node)"

subsection \<open>ensure_user_structure\<close>

definition ensure_user_structure :: "ledger option \<Rightarrow> ledger" where
  "ensure_user_structure cur =
     (case cur of
        None \<Rightarrow> \<lparr>AllStats = Some zero_stats, ClientData = Some [], batches = None,
                 lastBatch = Some ()\<rparr>
      | Some c \<Rightarrow>
          (let c1 = (if AllStats c = None then c\<lparr>AllStats := Some zero_stats\<rparr> else c);
               c2 = (if ClientData c1 = None then c1\<lparr>ClientData := Some []\<rparr> else c1);
               c3 = (if lastBatch c2 = None then c2\<lparr>lastBatch := Some ()\<rparr> else c2)
           in c3))"

subsection \<open>find_today_entry\<close>

fun find_today_entry :: "collection \<Rightarrow> string \<Rightarrow> string option" where
  "find_today_entry [] today_date = None"
| "find_today_entry ((k, e) # rest) today_date =
     (if date e = Some today_date then Some k else find_today_entry rest today_date)"

subsection \<open>get_next_client_id\<close>

definition client_key :: "nat \<Rightarrow> string" where
  "client_key i = CHR ''P'' # str_nat i"

function scan_client_id :: "(string, 'v) dict \<Rightarrow> nat \<Rightarrow> nat" where
  "scan_client_id client_data i =
     (if dict_has client_data (client_key i) then scan_client_id client_data (Suc i) else i)"
  by pat_completeness auto

definition get_next_client_id :: "(string, 'v) dict \<Rightarrow> string" where
  "get_next_client_id client_data = client_key (scan_client_id client_data 1)"

subsection \<open>Week keys and the next week number\<close>

definition week_key :: "int \<Rightarrow> string" where
  "week_key n = ''week'' @ str_int n"

definition week_of_key :: "string \<Rightarrow> int option" where
  "week_of_key k = (if startswith k ''week'' then py_int (remove_week k) else None)"

definition week_numbers :: "collection \<Rightarrow> int list" where
  "week_numbers coll = List.map_filter week_of_key (dict_keys coll)"

definition py_max :: "int list \<Rightarrow> int" where
  "py_max xs = fold max (tl xs) (hd xs)"

definition next_week_of :: "collection \<Rightarrow> int" where
  "next_week_of coll =
     (let weeks = week_numbers coll in (if weeks = [] then 0 else py_max weeks) + 1)"

text \<open>The closure rule, written three times in the source with the same text.\<close>

definition close_if_done :: "client_stat \<Rightarrow> all_stats \<Rightarrow> client_stat \<times> all_stats" where
  "close_if_done stat all_stats =
     (if get_or (WeeksPaid stat) 0 \<ge> 20
      then (stat\<lparr>Status := Some ''Closed''\<rparr>,
            all_stats\<lparr>ActiveLoans := Some (get_or (ActiveLoans all_stats) 0 - 1),
                      ClosedLoans := Some (get_or (ClosedLoans all_stats) 0 + 1)\<rparr>)
      else (stat, all_stats))"

subsection \<open>txn_add_new_client\<close>

definition new_client :: "string \<Rightarrow> string \<Rightarrow> string \<Rightarrow> client_node" where
  "new_client new_pid lend_date collection_day =
     \<lparr>Stat = Some \<lparr>ClientName = Some new_pid, CollectionDay = Some collection_day,
                    LendDate = Some lend_date, Status = Some ''Active'',
                    TotalAmountPaid = Some 0, WeeksPaid = Some 0\<rparr>,
      collectionData = Some []\<rparr>"

definition txn_add_new_client :: "string \<Rightarrow> string \<Rightarrow> ledger option \<Rightarrow> error + ledger" where
  "txn_add_new_client lend_date collection_day cur =
     (case cur of
        None \<Rightarrow> Inl UserNodeMissing
      | Some c \<Rightarrow>
          (case AllStats c of
             None \<Rightarrow> Inl CorruptStructure
           | Some all_stats \<Rightarrow>
               (case ClientData c of
                  None \<Rightarrow> Inl CorruptStructure
                | Some client_data \<Rightarrow>
                    (let new_pid = get_next_client_id client_data;
                         client_data' = dict_set client_data new_pid
                                          (new_client new_pid lend_date collection_day);
                         all_stats' =
                           \<lparr>TotalLoans = Some (get_or (TotalLoans all_stats) 0 + 1),
                            ActiveLoans = Some (get_or (ActiveLoans all_stats) 0 + 1),
                            ClosedLoans = Some (get_or (ClosedLoans all_stats) 0)\<rparr>
                     in Inr (c\<lparr>ClientData := Some client_data',
                               AllStats := Some all_stats'\<rparr>)))))"

subsection \<open>Request values\<close>

text \<open>
  The route hands \<open>entryAmount\<close> to the transform as the JSON parser returned it:
  \<open>None\<close>, a bool, an int, a float, a string, a list or a dict. A finite float is
  \<open>m * 2 ^ e\<close>, written \<open>FNum m e\<close>; the parser also yields infinities and NaN.
  Python's \<open>int\<close> returns an int as it is, a bool as 0 or 1, a finite float
  truncated towards zero and a string parsed by \<open>py_int\<close>; it raises
  \<open>ValueError\<close> for a string that is no integer literal and for NaN,
  \<open>OverflowError\<close> for an infinity, and \<open>TypeError\<close> for \<open>None\<close>, a list
  or a dict.
\<close>

datatype pyfloat = FNum int int | FInf | FNegInf | FNan

datatype json =
    JNull
  | JBool bool
  | JInt int
  | JFloat pyfloat
  | JStr string
  | JList "json list"
  | JDict "(string \<times> json) list"

definition float_trunc :: "int \<Rightarrow> int \<Rightarrow> int" where
  "float_trunc m e =
     (if 0 \<le> e then m * 2 ^ nat e else sgn m * (\<bar>m\<bar> div 2 ^ nat (- e)))"

fun py_int_value :: "json \<Rightarrow> error + int" where
  "py_int_value JNull = Inl TypeError"
| "py_int_value (JBool b) = Inr (if b then 1 else 0)"
| "py_int_value (JInt n) = Inr n"
| "py_int_value (JFloat (FNum m e)) = Inr (float_trunc m e)"
| "py_int_value (JFloat FInf) = Inl OverflowError"
| "py_int_value (JFloat FNegInf) = Inl OverflowError"
| "py_int_value (JFloat FNan) = Inl ValueError"
| "py_int_value (JStr s) = (case py_int s of None \<Rightarrow> Inl ValueError | Some n \<Rightarrow> Inr n)"
| "py_int_value (JList xs) = Inl TypeError"
| "py_int_value (JDict kvs) = Inl TypeError"

subsection \<open>txn_add_entry\<close>

definition add_entry_node ::
  "json \<Rightarrow> string \<Rightarrow> string \<Rightarrow> client_node \<Rightarrow> client_stat \<Rightarrow> all_stats
     \<Rightarrow> error + (client_node \<times> all_stats)" where
  "add_entry_node amount date_str status node stat all_stats =
     (let coll = get_or (collectionData node) [];
          next_week = next_week_of coll
      in if next_week > 20 then Inl MaxWeeksReached
         else
           (case py_int_value amount of
              Inl e \<Rightarrow> Inl e
            | Inr n \<Rightarrow>
                (let coll' = dict_set coll (week_key next_week)
                               \<lparr>Amount = Some n, date = Some date_str,
                                entryStatus = Some status\<rparr>;
                     weeks_paid = get_or (WeeksPaid stat) 0
                                  + (if status = ''paid'' then 1 else 0);
                     total_paid = get_or (TotalAmountPaid stat) 0
                                  + (if status = ''paid'' then n else 0);
                     stat1 = stat\<lparr>WeeksPaid := Some weeks_paid,
                                  TotalAmountPaid := Some total_paid\<rparr>;
                     (stat2, all_stats') = close_if_done stat1 all_stats
                 in Inr (node\<lparr>collectionData := Some coll', Stat := Some stat2\<rparr>,
                         all_stats'))))"

definition txn_add_entry ::
  "string \<Rightarrow> json \<Rightarrow> string \<Rightarrow> string \<Rightarrow> ledger option \<Rightarrow> error + ledger" where
  "txn_add_entry client_id amount date_str status cur =
     (case cur of
        None \<Rightarrow> Inl UserNotFound
      | Some c \<Rightarrow>
          (case AllStats c of
             None \<Rightarrow> Inl CorruptStructure
           | Some all_stats \<Rightarrow>
               (case ClientData c of
                  None \<Rightarrow> Inl CorruptStructure
                | Some client_data \<Rightarrow>
                    (let node = dict_get client_data client_id
                     in if node_falsy node then Inl ClientNotFound
                        else if stat_falsy (Stat (the node)) then Inl ClientStatMissing
                        else if Status (the (Stat (the node))) = Some ''Closed''
                        then Inl ClientClosed
                        else
                          (case add_entry_node amount date_str status (the node)
                                  (the (Stat (the node))) all_stats of
                             Inl e \<Rightarrow> Inl e
                           | Inr (node', all_stats') \<Rightarrow>
                               Inr (c\<lparr>ClientData := Some (dict_set client_data client_id node'),
                                      AllStats := Some all_stats'\<rparr>))))))"

subsection \<open>batch_mark_today\<close>

definition sweep_update ::
  "string \<Rightarrow> string \<Rightarrow> client_node \<Rightarrow> client_stat \<Rightarrow> collection \<Rightarrow> all_stats \<Rightarrow> receipt
     \<Rightarrow> error + (client_node \<times> all_stats \<times> receipt)" where
  "sweep_update client_id today_key node stat coll all_stats batch_record =
     (let entry = get_or (dict_get coll today_key) empty_entry
      in if lower (get_or (entryStatus entry) []) = ''paid''
         then Inr (node, all_stats, batch_record)
         else
           (let coll' = dict_set coll today_key (entry\<lparr>entryStatus := Some ''paid''\<rparr>);
                stat1 = stat\<lparr>WeeksPaid := Some (get_or (WeeksPaid stat) 0 + 1),
                             TotalAmountPaid := Some (get_or (TotalAmountPaid stat) 0 + 600)\<rparr>;
                (stat2, all_stats') = close_if_done stat1 all_stats;
                node' = node\<lparr>collectionData := Some coll', Stat := Some stat2\<rparr>
            in case py_int (remove_week today_key) of
                 None \<Rightarrow> Inl ValueError
               | Some week_no \<Rightarrow>
                   Inr (node', all_stats',
                        dict_set batch_record client_id
                          \<lparr>action = ''updated'', week = week_no\<rparr>)))"

definition sweep_create ::
  "string \<Rightarrow> string \<Rightarrow> client_node \<Rightarrow> client_stat \<Rightarrow> collection \<Rightarrow> all_stats \<Rightarrow> receipt
     \<Rightarrow> client_node \<times> all_stats \<times> receipt" where
  "sweep_create client_id today_date node stat coll all_stats batch_record =
     (let next_week = next_week_of coll
      in if next_week > 20 then (node, all_stats, batch_record)
         else
           (let coll' = dict_set coll (week_key next_week)
                          \<lparr>Amount = Some 600, date = Some today_date,
                           entryStatus = Some ''paid''\<rparr>;
                stat1 = stat\<lparr>WeeksPaid := Some (get_or (WeeksPaid stat) 0 + 1),
                             TotalAmountPaid := Some (get_or (TotalAmountPaid stat) 0 + 600)\<rparr>;
                (stat2, all_stats') = close_if_done stat1 all_stats;
                node' = node\<lparr>collectionData := Some coll', Stat := Some stat2\<rparr>
            in (node', all_stats',
                dict_set batch_record client_id
                  \<lparr>action = ''created'', week = next_week\<rparr>)))"

text \<open>One iteration of the loop over \<open>client_data.items()\<close>.\<close>

definition sweep_client ::
  "string \<Rightarrow> string \<Rightarrow> string \<Rightarrow> client_node \<Rightarrow> all_stats \<Rightarrow> receipt
     \<Rightarrow> error + (client_node \<times> all_stats \<times> receipt)" where
  "sweep_client today_date today_weekday client_id node all_stats batch_record =
     (if stat_falsy (Stat node) then Inr (node, all_stats, batch_record)
      else
        (let stat = the (Stat node)
         in if lower (get_or (Status stat) []) \<noteq> ''active''
            then Inr (node, all_stats, batch_record)
            else if CollectionDay stat \<noteq> Some today_weekday
            then Inr (node, all_stats, batch_record)
            else
              (let coll = get_or (collectionData node) []
               in case find_today_entry coll today_date of
                    Some today_key \<Rightarrow>
                      if today_key \<noteq> []
                      then sweep_update client_id today_key node stat coll all_stats batch_record
                      else Inr (sweep_create client_id today_date node stat coll
                                  all_stats batch_record)
                  | None \<Rightarrow>
                      Inr (sweep_create client_id today_date node stat coll
                             all_stats batch_record))))"

fun sweep_clients ::
  "string \<Rightarrow> string \<Rightarrow> (string, client_node) dict \<Rightarrow> all_stats \<Rightarrow> receipt
     \<Rightarrow> error + ((string, client_node) dict \<times> all_stats \<times> receipt)" where
  "sweep_clients today_date today_weekday [] all_stats batch_record =
     Inr ([], all_stats, batch_record)"
| "sweep_clients today_date today_weekday ((client_id, node) # rest) all_stats batch_record =
     (case sweep_client today_date today_weekday client_id node all_stats batch_record of
        Inl e \<Rightarrow> Inl e
      | Inr (node', all_stats', batch_record') \<Rightarrow>
          (case sweep_clients today_date today_weekday rest all_stats' batch_record' of
             Inl e \<Rightarrow> Inl e
           | Inr (rest', all_stats'', batch_record'') \<Rightarrow>
               Inr ((client_id, node') # rest', all_stats'', batch_record'')))"

text \<open>
  The transform of \<open>batch_mark_today\<close>. The clock is a parameter: \<open>today_date\<close> is
  the ISO date and \<open>today_weekday\<close> the weekday name the source reads from it.
\<close>

definition batch_mark_today :: "string \<Rightarrow> string \<Rightarrow> ledger option \<Rightarrow> error + ledger" where
  "batch_mark_today today_date today_weekday cur =
     (let c = ensure_user_structure cur;
          client_data = get_or (ClientData c) [];
          all_stats = get_or (AllStats c) empty_stats;
          bs = get_or (batches c) []
      in if dict_has bs today_date then Inr c
         else
           (case sweep_clients today_date today_weekday client_data all_stats [] of
              Inl e \<Rightarrow> Inl e
            | Inr (client_data', all_stats', batch_record) \<Rightarrow>
                Inr (c\<lparr>ClientData := Some client_data', AllStats := Some all_stats',
                       batches := Some (dict_set bs today_date batch_record)\<rparr>)))"

subsection \<open>undo_last_batch\<close>

definition rollback :: "client_stat \<Rightarrow> int \<Rightarrow> all_stats \<Rightarrow> client_stat \<times> all_stats" where
  "rollback stat amount all_stats =
     (let stat1 = stat\<lparr>WeeksPaid := Some (max 0 (get_or (WeeksPaid stat) 0 - 1)),
                       TotalAmountPaid :=
                         Some (max 0 (get_or (TotalAmountPaid stat) 0 - amount))\<rparr>
      in if Status stat1 = Some ''Closed''
         then (stat1\<lparr>Status := Some ''Active''\<rparr>,
               all_stats\<lparr>ActiveLoans := Some (get_or (ActiveLoans all_stats) 0 + 1),
                         ClosedLoans := Some (get_or (ClosedLoans all_stats) 0 - 1)\<rparr>)
         else (stat1, all_stats))"

text \<open>One iteration of the loop over \<open>record.items()\<close>.\<close>

definition undo_client ::
  "string \<Rightarrow> batch_info \<Rightarrow> (string, client_node) dict \<Rightarrow> all_stats
     \<Rightarrow> (string, client_node) dict \<times> all_stats" where
  "undo_client client_id info client_data all_stats =
     (let node = dict_get client_data client_id
      in if node_falsy node then (client_data, all_stats)
         else
           (let stat = Stat (the node);
                coll = get_or (collectionData (the node)) [];
                wkey = week_key (week info)
            in if \<not> dict_has coll wkey \<or> stat_falsy stat then (client_data, all_stats)
               else
                 (let entry = get_or (dict_get coll wkey) empty_entry;
                      amount = get_or (Amount entry) 600;
                      (coll', stat', all_stats') =
                        (if action info = ''created''
                         then (let (s, a) = rollback (the stat) amount all_stats
                               in (dict_del coll wkey, s, a))
                         else if action info = ''updated''
                         then (let (s, a) = rollback (the stat) amount all_stats
                               in (dict_set coll wkey (entry\<lparr>entryStatus := Some ''pending''\<rparr>),
                                   s, a))
                         else (coll, the stat, all_stats));
                      node' = (the node)\<lparr>collectionData := Some coll', Stat := Some stat'\<rparr>
                  in (dict_set client_data client_id node', all_stats'))))"

fun undo_record ::
  "receipt \<Rightarrow> (string, client_node) dict \<Rightarrow> all_stats
     \<Rightarrow> (string, client_node) dict \<times> all_stats" where
  "undo_record [] client_data all_stats = (client_data, all_stats)"
| "undo_record ((client_id, info) # rest) client_data all_stats =
     (case undo_client client_id info client_data all_stats of
        (client_data', all_stats') \<Rightarrow> undo_record rest client_data' all_stats')"

definition undo_last_batch :: "ledger option \<Rightarrow> ledger" where
  "undo_last_batch cur =
     (let c = ensure_user_structure cur;
          client_data = get_or (ClientData c) [];
          all_stats = get_or (AllStats c) empty_stats;
          bs = get_or (batches c) []
      in if bs = [] then c
         else
           (let last_date = last (sort (dict_keys bs));
                record = get_or (dict_get bs last_date) [];
                (client_data', all_stats') = undo_record record client_data all_stats
            in c\<lparr>ClientData := Some client_data', AllStats := Some all_stats',
                 batches := Some (dict_del bs last_date)\<rparr>))"

subsection \<open>get_next_client_id_route\<close>

fun max_suffix :: "string list \<Rightarrow> int \<Rightarrow> int" where
  "max_suffix [] max_n = max_n"
| "max_suffix (key # keys) max_n =
     (if startswith key ''P''
      then (case py_int (drop 1 key) of
              Some n \<Rightarrow> max_suffix keys (if n > max_n then n else max_n)
            | None \<Rightarrow> max_suffix keys max_n)
      else max_suffix keys max_n)"

definition empty_ledger :: ledger where
  "empty_ledger = \<lparr>AllStats = None, ClientData = None, batches = None, lastBatch = None\<rparr>"

definition get_next_client_id_route :: "ledger option \<Rightarrow> string" where
  "get_next_client_id_route data =
     (if data = None \<or> data = Some empty_ledger \<or> ClientData (the data) = None
         \<or> ClientData (the data) = Some []
      then ''P1''
      else CHR ''P'' # str_int (max_suffix (dict_keys (the (ClientData (the data)))) 0 + 1))"

subsection \<open>The document store\<close>

text \<open>
  \<open>user_ref.transaction(tx)\<close>: the store hands the current document to the transform
  and writes what it returns; a transform that raises writes nothing and the error
  reaches the caller.
\<close>

definition transaction ::
  "(ledger option \<Rightarrow> error + ledger) \<Rightarrow> ledger option \<Rightarrow> ledger option \<times> error option" where
  "transaction tx store =
     (case tx store of Inl e \<Rightarrow> (store, Some e) | Inr c \<Rightarrow> (Some c, None))"

section \<open>Scenario ledgers\<close>

text \<open>
  Concrete ledgers for the scenarios: one client \<open>P1\<close> collecting on Mondays, and the
  same ledger after the sweep of Monday 2024-01-01.
\<close>

definition ledger_p1 :: ledger where
  "ledger_p1 =
     \<lparr>AllStats = Some \<lparr>TotalLoans = Some 1, ActiveLoans = Some 1, ClosedLoans = Some 0\<rparr>,
      ClientData = Some [(''P1'',
        \<lparr>Stat = Some \<lparr>ClientName = Some ''P1'', CollectionDay = Some ''MON'',
                       LendDate = Some ''2024-01-01'', Status = Some ''Active'',
                       TotalAmountPaid = Some 0, WeeksPaid = Some 0\<rparr>,
         collectionData = Some []\<rparr>)],
      batches = None, lastBatch = Some ()\<rparr>"

definition ledger_p1_swept :: ledger where
  "ledger_p1_swept =
     \<lparr>AllStats = Some \<lparr>TotalLoans = Some 1, ActiveLoans = Some 1, ClosedLoans = Some 0\<rparr>,
      ClientData = Some [(''P1'',
        \<lparr>Stat = Some \<lparr>ClientName = Some ''P1'', CollectionDay = Some ''MON'',
                       LendDate = Some ''2024-01-01'', Status = Some ''Active'',
                       TotalAmountPaid = Some 600, WeeksPaid = Some 1\<rparr>,
         collectionData = Some [(''week1'',
           \<lparr>Amount = Some 600, date = Some ''2024-01-01'', entryStatus = Some ''paid''\<rparr>)]\<rparr>)],
      batches = Some [(''2024-01-01'', [(''P1'', \<lparr>action = ''created'', week = 1\<rparr>)])],
      lastBatch = Some ()\<rparr>"

text \<open>
  A client whose \<open>collectionData\<close> already holds \<open>week20\<close>, a missed visit: the
  next week number is 21.
\<close>

definition ledger_week20 :: ledger where
  "ledger_week20 =
     \<lparr>AllStats = Some \<lparr>TotalLoans = Some 1, ActiveLoans = Some 1, ClosedLoans = Some 0\<rparr>,
      ClientData = Some [(''P1'',
        \<lparr>Stat = Some \<lparr>ClientName = Some ''P1'', CollectionDay = Some ''MON'',
                       LendDate = Some ''2023-08-14'', Status = Some ''Active'',
                       TotalAmountPaid = Some 0, WeeksPaid = Some 0\<rparr>,
         collectionData = Some [(''week20'',
           \<lparr>Amount = Some 600, date = Some ''2023-12-25'', entryStatus = Some ''missed''\<rparr>)]\<rparr>)],
      batches = None, lastBatch = Some ()\<rparr>"

text \<open>
  A client with nineteen paid weeks, and the same ledger after a twentieth paid entry
  is posted on 2024-01-01.
\<close>

definition paid_19 :: collection where
  "paid_19 =
          [(''week1'', \<lparr>Amount = Some 600, date = Some ''2023-08-21'', entryStatus = Some ''paid''\<rparr>),
           (''week2'', \<lparr>Amount = Some 600, date = Some ''2023-08-28'', entryStatus = Some ''paid''\<rparr>),
           (''week3'', \<lparr>Amount = Some 600, date = Some ''2023-09-04'', entryStatus = Some ''paid''\<rparr>),
           (''week4'', \<lparr>Amount = Some 600, date = Some ''2023-09-11'', entryStatus = Some ''paid''\<rparr>),
           (''week5'', \<lparr>Amount = Some 600, date = Some ''2023-09-18'', entryStatus = Some ''paid''\<rparr>),
           (''week6'', \<lparr>Amount = Some 600, date = Some ''2023-09-25'', entryStatus = Some ''paid''\<rparr>),
           (''week7'', \<lparr>Amount = Some 600, date = Some ''2023-10-02'', entryStatus = Some ''paid''\<rparr>),
           (''week8'', \<lparr>Amount = Some 600, date = Some ''2023-10-09'', entryStatus = Some ''paid''\<rparr>),
           (''week9'', \<lparr>Amount = Some 600, date = Some ''2023-10-16'', entryStatus = Some ''paid''\<rparr>),
           (''week10'', \<lparr>Amount = Some 600, date = Some ''2023-10-23'', entryStatus = Some ''paid''\<rparr>),
           (''week11'', \<lparr>Amount = Some 600, date = Some ''2023-10-30'', entryStatus = Some ''paid''\<rparr>),
           (''week12'', \<lparr>Amount = Some 600, date = Some ''2023-11-06'', entryStatus = Some ''paid''\<rparr>),
           (''week13'', \<lparr>Amount = Some 600, date = Some ''2023-11-13'', entryStatus = Some ''paid''\<rparr>),
           (''week14'', \<lparr>Amount = Some 600, date = Some ''2023-11-20'', entryStatus = Some ''paid''\<rparr>),
           (''week15'', \<lparr>Amount = Some 600, date = Some ''2023-11-27'', entryStatus = Some ''paid''\<rparr>),
           (''week16'', \<lparr>Amount = Some 600, date = Some ''2023-12-04'', entryStatus = Some ''paid''\<rparr>),
           (''week17'', \<lparr>Amount = Some 600, date = Some ''2023-12-11'', entryStatus = Some ''paid''\<rparr>),
           (''week18'', \<lparr>Amount = Some 600, date = Some ''2023-12-18'', entryStatus = Some ''paid''\<rparr>),
           (''week19'', \<lparr>Amount = Some 600, date = Some ''2023-12-25'', entryStatus = Some ''paid''\<rparr>)]"

definition ledger_19_paid :: ledger where
  "ledger_19_paid =
     \<lparr>AllStats = Some \<lparr>TotalLoans = Some 1, ActiveLoans = Some 1, ClosedLoans = Some 0\<rparr>,
      ClientData = Some [(''P1'',
        \<lparr>Stat = Some \<lparr>ClientName = Some ''P1'', CollectionDay = Some ''MON'',
                       LendDate = Some ''2023-08-14'', Status = Some ''Active'',
                       TotalAmountPaid = Some 11400, WeeksPaid = Some 19\<rparr>,
         collectionData = Some paid_19\<rparr>)],
      batches = None, lastBatch = Some ()\<rparr>"

definition ledger_20_paid :: ledger where
  "ledger_20_paid =
     \<lparr>AllStats = Some \<lparr>TotalLoans = Some 1, ActiveLoans = Some 0, ClosedLoans = Some 1\<rparr>,
      ClientData = Some [(''P1'',
        \<lparr>Stat = Some \<lparr>ClientName = Some ''P1'', CollectionDay = Some ''MON'',
                       LendDate = Some ''2023-08-14'', Status = Some ''Closed'',
                       TotalAmountPaid = Some 12000, WeeksPaid = Some 20\<rparr>,
         collectionData = Some (paid_19 @ [(''week20'',
           \<lparr>Amount = Some 600, date = Some ''2024-01-01'', entryStatus = Some ''paid''\<rparr>)])\<rparr>)],
      batches = None, lastBatch = Some ()\<rparr>"

section \<open>Reachable ledgers\<close>

text \<open>
  The ledgers that the four operations produce, starting from the repaired empty
  document. Every argument is arbitrary: client ids, amounts, statuses, and the date
  and weekday the sweep reads from the clock.
\<close>

inductive reachable :: "ledger \<Rightarrow> bool" where
  start: "reachable (ensure_user_structure None)"
| addClient:
    "reachable c \<Longrightarrow> txn_add_new_client lend_date collection_day (Some c) = Inr c'
     \<Longrightarrow> reachable c'"
| postEntry:
    "reachable c \<Longrightarrow> txn_add_entry client_id amount date_str status (Some c) = Inr c'
     \<Longrightarrow> reachable c'"
| sweepToday:
    "reachable c \<Longrightarrow> batch_mark_today today_date today_weekday (Some c) = Inr c'
     \<Longrightarrow> reachable c'"
| undoLastBatch:
    "reachable c \<Longrightarrow> reachable (undo_last_batch (Some c))"

text \<open>\<open>TotalLoans == ActiveLoans + ClosedLoans\<close>, all three counters present.\<close>

definition balanced :: "all_stats \<Rightarrow> bool" where
  "balanced s =
     (case (TotalLoans s, ActiveLoans s, ClosedLoans s) of
        (Some t, Some a, Some cl) \<Rightarrow> t = a + cl
      | _ \<Rightarrow> False)"

definition stats_balanced :: "ledger \<Rightarrow> bool" where
  "stats_balanced c = (case AllStats c of Some s \<Rightarrow> balanced s | None \<Rightarrow> False)"

text \<open>
  A visit logged as pending with an amount of 500 for Monday 2024-01-01, the same
  ledger after that day's sweep, and after the sweep is undone.
\<close>

definition ledger_pending_500 :: ledger where
  "ledger_pending_500 =
     \<lparr>AllStats = Some \<lparr>TotalLoans = Some 1, ActiveLoans = Some 1, ClosedLoans = Some 0\<rparr>,
      ClientData = Some [(''P1'',
        \<lparr>Stat = Some \<lparr>ClientName = Some ''P1'', CollectionDay = Some ''MON'',
                       LendDate = Some ''2024-01-01'', Status = Some ''Active'',
                       TotalAmountPaid = Some 0, WeeksPaid = Some 0\<rparr>,
         collectionData = Some [(''week1'',
           \<lparr>Amount = Some 500, date = Some ''2024-01-01'', entryStatus = Some ''pending''\<rparr>)]\<rparr>)],
      batches = None, lastBatch = Some ()\<rparr>"

definition ledger_pending_500_swept :: ledger where
  "ledger_pending_500_swept =
     \<lparr>AllStats = Some \<lparr>TotalLoans = Some 1, ActiveLoans = Some 1, ClosedLoans = Some 0\<rparr>,
      ClientData = Some [(''P1'',
        \<lparr>Stat = Some \<lparr>ClientName = Some ''P1'', CollectionDay = Some ''MON'',
                       LendDate = Some ''2024-01-01'', Status = Some ''Active'',
                       TotalAmountPaid = Some 600, WeeksPaid = Some 1\<rparr>,
         collectionData = Some [(''week1'',
           \<lparr>Amount = Some 500, date = Some ''2024-01-01'', entryStatus = Some ''paid''\<rparr>)]\<rparr>)],
      batches = Some [(''2024-01-01'', [(''P1'', \<lparr>action = ''updated'', week = 1\<rparr>)])],
      lastBatch = Some ()\<rparr>"

definition ledger_pending_500_undone :: ledger where
  "ledger_pending_500_undone =
     \<lparr>AllStats = Some \<lparr>TotalLoans = Some 1, ActiveLoans = Some 1, ClosedLoans = Some 0\<rparr>,
      ClientData = Some [(''P1'',
        \<lparr>Stat = Some \<lparr>ClientName = Some ''P1'', CollectionDay = Some ''MON'',
                       LendDate = Some ''2024-01-01'', Status = Some ''Active'',
                       TotalAmountPaid = Some 100, WeeksPaid = Some 0\<rparr>,
         collectionData = Some [(''week1'',
           \<lparr>Amount = Some 500, date = Some ''2024-01-01'', entryStatus = Some ''pending''\<rparr>)]\<rparr>)],
      batches = Some [], lastBatch = Some ()\<rparr>"

text \<open>
  The swept ledger \<open>ledger_p1_swept\<close> after a second paid entry is posted, and after
  the sweep is then undone.
\<close>

definition ledger_two_weeks :: ledger where
  "ledger_two_weeks =
     \<lparr>AllStats = Some \<lparr>TotalLoans = Some 1, ActiveLoans = Some 1, ClosedLoans = Some 0\<rparr>,
      ClientData = Some [(''P1'',
        \<lparr>Stat = Some \<lparr>ClientName = Some ''P1'', CollectionDay = Some ''MON'',
                       LendDate = Some ''2024-01-01'', Status = Some ''Active'',
                       TotalAmountPaid = Some 1200, WeeksPaid = Some 2\<rparr>,
         collectionData = Some
           [(''week1'',
             \<lparr>Amount = Some 600, date = Some ''2024-01-01'', entryStatus = Some ''paid''\<rparr>),
            (''week2'',
             \<lparr>Amount = Some 600, date = Some ''2024-01-02'', entryStatus = Some ''paid''\<rparr>)]\<rparr>)],
      batches = Some [(''2024-01-01'', [(''P1'', \<lparr>action = ''created'', week = 1\<rparr>)])],
      lastBatch = Some ()\<rparr>"

definition ledger_gap :: ledger where
  "ledger_gap =
     \<lparr>AllStats = Some \<lparr>TotalLoans = Some 1, ActiveLoans = Some 1, ClosedLoans = Some 0\<rparr>,
      ClientData = Some [(''P1'',
        \<lparr>Stat = Some \<lparr>ClientName = Some ''P1'', CollectionDay = Some ''MON'',
                       LendDate = Some ''2024-01-01'', Status = Some ''Active'',
                       TotalAmountPaid = Some 600, WeeksPaid = Some 1\<rparr>,
         collectionData = Some
           [(''week2'',
             \<lparr>Amount = Some 600, date = Some ''2024-01-02'', entryStatus = Some ''paid''\<rparr>)]\<rparr>)],
      batches = Some [], lastBatch = Some ()\<rparr>"

section \<open>Week invariants\<close>

text \<open>
  \<open>reachable_no_undo\<close>: the ledgers reached without \<open>undo_last_batch\<close>.
\<close>

inductive reachable_no_undo :: "ledger \<Rightarrow> bool" where
  start: "reachable_no_undo (ensure_user_structure None)"
| addClient:
    "reachable_no_undo c \<Longrightarrow> txn_add_new_client lend_date collection_day (Some c) = Inr c'
     \<Longrightarrow> reachable_no_undo c'"
| postEntry:
    "reachable_no_undo c \<Longrightarrow> txn_add_entry client_id amount date_str status (Some c) = Inr c'
     \<Longrightarrow> reachable_no_undo c'"
| sweepToday:
    "reachable_no_undo c \<Longrightarrow> batch_mark_today today_date today_weekday (Some c) = Inr c'
     \<Longrightarrow> reachable_no_undo c'"

text \<open>\<open>0 \<le> WeeksPaid \<le> 20\<close> for a client record.\<close>

definition weeks_paid_ok :: "client_node \<Rightarrow> bool" where
  "weeks_paid_ok node =
     (case Stat node of
        None \<Rightarrow> False
      | Some stat \<Rightarrow> (case WeeksPaid stat of None \<Rightarrow> False | Some w \<Rightarrow> 0 \<le> w \<and> w \<le> 20))"

text \<open>The keys are exactly \<open>week1, \<dots>, weekN\<close> for \<open>N\<close> the number of entries.\<close>

definition weeks_dense :: "collection \<Rightarrow> bool" where
  "weeks_dense coll =
     (set (dict_keys coll) = set (map (\<lambda>i. week_key (int i)) [1..<Suc (length coll)]))"

text \<open>The keys are distinct and each is \<open>week<k>\<close> with \<open>1 \<le> k \<le> 20\<close>.\<close>

definition week_keys_ok :: "collection \<Rightarrow> bool" where
  "week_keys_ok coll =
     (distinct (dict_keys coll) \<and> list_all (\<lambda>k. k \<in> week_key ` {1..20}) (dict_keys coll))"

definition clients_all :: "(client_node \<Rightarrow> bool) \<Rightarrow> ledger \<Rightarrow> bool" where
  "clients_all Q c = list_all (\<lambda>(client_id, node). Q node) (get_or (ClientData c) [])"

text \<open>
  The invariants the proofs carry: the status is Active below 20 paid weeks and Closed
  at 20, and (when \<open>dense\<close> is set) the keys are \<open>week1, \<dots>, weekN\<close> in insertion order.
\<close>

definition stat_ok :: "client_stat \<Rightarrow> bool" where
  "stat_ok stat =
     (case WeeksPaid stat of
        None \<Rightarrow> False
      | Some w \<Rightarrow> (Status stat = Some ''Active'' \<and> 0 \<le> w \<and> w \<le> 19)
                  \<or> (Status stat = Some ''Closed'' \<and> w = 20))"

definition keys_in_order :: "collection \<Rightarrow> bool" where
  "keys_in_order coll =
     (dict_keys coll = map (\<lambda>i. week_key (int i)) [1..<Suc (length coll)])"

definition node_inv :: "bool \<Rightarrow> client_node \<Rightarrow> bool" where
  "node_inv dense node =
     ((case Stat node of None \<Rightarrow> False | Some stat \<Rightarrow> stat_ok stat)
      \<and> week_keys_ok (get_or (collectionData node) [])
      \<and> (dense \<longrightarrow> keys_in_order (get_or (collectionData node) [])))"

definition ledger_inv :: "bool \<Rightarrow> ledger \<Rightarrow> bool" where
  "ledger_inv dense c = (ClientData c \<noteq> None \<and> clients_all (node_inv dense) c)"

text \<open>
  The two properties of a client record: \<open>client_weeks_ok\<close> asks for dense week keys,
  \<open>client_keys_ok\<close> only for distinct keys \<open>week<k>\<close> with \<open>k\<close> from 1 to 20.
\<close>

definition client_weeks_ok :: "client_node \<Rightarrow> bool" where
  "client_weeks_ok node =
     (weeks_paid_ok node \<and> weeks_dense (get_or (collectionData node) []))"

definition client_keys_ok :: "client_node \<Rightarrow> bool" where
  "client_keys_ok node =
     (weeks_paid_ok node \<and> week_keys_ok (get_or (collectionData node) []))"

text \<open>
  The ledger \<open>ledger_pending_500\<close> when the sweep of 2024-01-01 had already run, on
  the then empty ledger, before the client was registered.
\<close>

definition ledger_pending_500_marked :: ledger where
  "ledger_pending_500_marked =
     \<lparr>AllStats = Some \<lparr>TotalLoans = Some 1, ActiveLoans = Some 1, ClosedLoans = Some 0\<rparr>,
      ClientData = Some [(''P1'',
        \<lparr>Stat = Some \<lparr>ClientName = Some ''P1'', CollectionDay = Some ''MON'',
                       LendDate = Some ''2024-01-01'', Status = Some ''Active'',
                       TotalAmountPaid = Some 0, WeeksPaid = Some 0\<rparr>,
         collectionData = Some [(''week1'',
           \<lparr>Amount = Some 500, date = Some ''2024-01-01'', entryStatus = Some ''pending''\<rparr>)]\<rparr>)],
      batches = Some [(''2024-01-01'', [])], lastBatch = Some ()\<rparr>"

section \<open>Decimal text and parsing\<close>

lemma digit_char_props:
  "d < 10 \<Longrightarrow> is_digit (digit_char d) \<and> digit_val (digit_char d) = d"
proof -
  assume "d < 10"
  then have "d \<in> {0,1,2,3,4,5,6,7,8,9}" by auto
  then show ?thesis
    by (auto simp: digit_char_def is_digit_def digit_val_def)
qed

lemma str_nat_digits: "\<forall>c \<in> set (str_nat n). is_digit c"
proof (induction n rule: str_nat.induct)
  case (1 n)
  show ?case
  proof (cases "n < 10")
    case True
    then show ?thesis by (subst str_nat.simps) (simp add: digit_char_props)
  next
    case False
    with 1 show ?thesis by (subst str_nat.simps) (simp add: digit_char_props)
  qed
qed

lemma str_nat_nonempty: "str_nat n \<noteq> []"
  by (subst str_nat.simps) simp

lemma digits_acc_append:
  "\<forall>c \<in> set xs. is_digit c \<Longrightarrow>
   digits_acc a (xs @ ys) = digits_acc (foldl (\<lambda>v c. 10 * v + digit_val c) a xs) ys"
  by (induction xs arbitrary: a) auto

lemma foldl_str_nat:
  "foldl (\<lambda>v c. 10 * v + digit_val c) a (str_nat n) = a * 10 ^ length (str_nat n) + n"
proof (induction n rule: str_nat.induct)
  case (1 n)
  show ?case
  proof (cases "n < 10")
    case True
    then show ?thesis by (subst (1 2) str_nat.simps) (simp add: digit_char_props)
  next
    case False
    with 1 show ?thesis
      by (subst (1 2) str_nat.simps) (simp add: digit_char_props)
  qed
qed

lemma parse_nat_str_nat: "parse_nat (str_nat n) = Some n"
proof -
  obtain c cs where s: "str_nat n = c # cs"
    using str_nat_nonempty by (cases "str_nat n") auto
  have dg: "\<forall>c \<in> set (str_nat n). is_digit c" by (rule str_nat_digits)
  have "digits_acc 0 (str_nat n @ []) = Some n"
    using digits_acc_append [OF dg, of 0 "[]"] foldl_str_nat [of 0 n] by simp
  then show ?thesis using s dg by (simp add: parse_nat_def)
qed

lemma is_digit_not_space: "is_digit c \<Longrightarrow> \<not> is_space c"
  by (auto simp: is_digit_def is_space_def)

lemma dropWhile_hd_id: "s \<noteq> [] \<Longrightarrow> \<not> P (hd s) \<Longrightarrow> dropWhile P s = s"
  by (cases s) auto

lemma strip_id: "s \<noteq> [] \<Longrightarrow> \<not> is_space (hd s) \<Longrightarrow> \<not> is_space (last s) \<Longrightarrow> strip s = s"
  by (simp add: strip_def dropWhile_hd_id hd_rev)

lemma str_nat_hd_last: "is_digit (hd (str_nat n)) \<and> is_digit (last (str_nat n))"
  using str_nat_digits [of n] str_nat_nonempty [of n] by (meson hd_in_set last_in_set)

lemma is_digit_not_sign: "is_digit c \<Longrightarrow> c \<noteq> CHR ''-'' \<and> c \<noteq> CHR ''+''"
  by (auto simp: is_digit_def)

lemma py_int_str_nat: "py_int (str_nat n) = Some (int n)"
proof -
  have st: "strip (str_nat n) = str_nat n"
    using str_nat_hd_last [of n] str_nat_nonempty [of n]
    by (intro strip_id) (auto dest: is_digit_not_space)
  obtain c cs where s: "str_nat n = c # cs"
    using str_nat_nonempty by (cases "str_nat n") auto
  have "is_digit c" using str_nat_hd_last [of n] s by simp
  then have "c \<noteq> CHR ''-''" "c \<noteq> CHR ''+''" using is_digit_not_sign by auto
  then show ?thesis
    using st s parse_nat_str_nat [of n] by (simp add: py_int_def)
qed

lemma py_int_str_int: "py_int (str_int i) = Some i"
proof (cases "i < 0")
  case True
  have nsp: "\<not> is_space CHR ''-''" by (simp add: is_space_def)
  have "strip (CHR ''-'' # str_nat (nat (- i))) = CHR ''-'' # str_nat (nat (- i))"
    using str_nat_hd_last [of "nat (- i)"] str_nat_nonempty [of "nat (- i)"] nsp
    by (intro strip_id) (auto dest: is_digit_not_space)
  then show ?thesis using True parse_nat_str_nat [of "nat (- i)"]
    by (simp add: py_int_def str_int_def)
next
  case False
  then show ?thesis using py_int_str_nat [of "nat i"] by (simp add: str_int_def)
qed

lemma str_nat_inj:
  assumes "str_nat m = str_nat n"
  shows "m = n"
proof -
  have "py_int (str_nat m) = py_int (str_nat n)" using assms by (rule arg_cong)
  then have "Some (int m) = Some (int n)" by (simp only: py_int_str_nat)
  then show ?thesis by simp
qed

lemma str_int_inj:
  assumes "str_int i = str_int j"
  shows "i = j"
proof -
  have "py_int (str_int i) = py_int (str_int j)" using assms by (rule arg_cong)
  then have "Some i = Some j" by (simp only: py_int_str_int)
  then show ?thesis by simp
qed

lemma remove_week_no_w: "\<forall>c \<in> set s. c \<noteq> CHR ''w'' \<Longrightarrow> remove_week s = s"
  by (induction s) auto

lemma is_digit_not_w: "is_digit c \<Longrightarrow> c \<noteq> CHR ''w''"
  by (auto simp: is_digit_def)

lemma str_int_no_w: "\<forall>c \<in> set (str_int i). c \<noteq> CHR ''w''"
proof
  fix c assume c: "c \<in> set (str_int i)"
  then have "c = CHR ''-'' \<or> is_digit c"
    using str_nat_digits by (auto simp: str_int_def split: if_splits)
  then show "c \<noteq> CHR ''w''" using is_digit_not_w by auto
qed

lemma startswith_week_key: "startswith (week_key n) ''week''"
  by (simp add: week_key_def startswith_def)

lemma remove_week_week_key: "remove_week (week_key n) = str_int n"
proof -
  have "remove_week (week_key n) = remove_week (str_int n)"
    by (simp add: week_key_def)
  then show ?thesis using remove_week_no_w [OF str_int_no_w] by simp
qed

lemma week_of_key_week_key: "week_of_key (week_key n) = Some n"
  by (simp only: week_of_key_def startswith_week_key remove_week_week_key py_int_str_int if_True)

lemma week_key_inj:
  assumes "week_key m = week_key n"
  shows "m = n"
proof -
  have "week_of_key (week_key m) = week_of_key (week_key n)" using assms by (rule arg_cong)
  then have "Some m = Some n" by (simp only: week_of_key_week_key)
  then show ?thesis by simp
qed

lemma client_key_inj: "client_key m = client_key n \<Longrightarrow> m = n"
  by (auto simp: client_key_def dest: str_nat_inj)

section \<open>The id scan terminates\<close>

termination scan_client_id
proof (relation "measure (\<lambda>(client_data, i).
         card {k \<in> set (dict_keys client_data). \<exists>j\<ge>i. k = client_key j})")
  show "wf (measure (\<lambda>(client_data :: (string, 'a) dict, i).
         card {k \<in> set (dict_keys client_data). \<exists>j\<ge>i. k = client_key j}))"
    by simp
next
  fix client_data :: "(string, 'a) dict" and i :: nat
  assume has: "dict_has client_data (client_key i)"
  let ?A = "\<lambda>i. {k \<in> set (dict_keys client_data). \<exists>j\<ge>i. k = client_key j}"
  have sub: "?A (Suc i) \<subseteq> ?A i" using Suc_leD by blast
  have inA: "client_key i \<in> ?A i" using has by (auto simp: dict_has_def)
  have notin: "client_key i \<notin> ?A (Suc i)"
  proof
    assume "client_key i \<in> ?A (Suc i)"
    then obtain j where "j \<ge> Suc i" "client_key i = client_key j" by auto
    then show False using client_key_inj [of i j] by simp
  qed
  have "?A (Suc i) \<subset> ?A i" using sub inA notin by blast
  moreover have "finite (?A i)" by simp
  ultimately have "card (?A (Suc i)) < card (?A i)" by (rule psubset_card_mono [rotated])
  then show "((client_data, Suc i), (client_data, i)) \<in> measure (\<lambda>(client_data, i).
         card {k \<in> set (dict_keys client_data). \<exists>j\<ge>i. k = client_key j})"
    by simp
qed

declare scan_client_id.simps [simp del]

section \<open>Dictionary lemmas\<close>

lemma dict_set_fresh: "\<not> dict_has d k \<Longrightarrow> dict_set d k v = d @ [(k, v)]"
  by (induction d) (auto simp: dict_has_def dict_keys_def)

lemma dict_get_dict_set: "dict_get (dict_set d k v) k' = (if k' = k then Some v else dict_get d k')"
  by (induction d) (auto simp: dict_get_def)

lemma dict_keys_dict_set:
  "dict_keys (dict_set d k v) = (if dict_has d k then dict_keys d else dict_keys d @ [k])"
  by (induction d) (force simp: dict_keys_def dict_has_def)+

lemma dict_has_dict_set: "dict_has (dict_set d k v) k' = (k' = k \<or> dict_has d k')"
  by (auto simp: dict_has_def dict_keys_dict_set)

section \<open>Client registration\<close>

lemma scan_client_id_spec:
  "i \<le> scan_client_id cd i \<and> \<not> dict_has cd (client_key (scan_client_id cd i))
   \<and> (\<forall>m. i \<le> m \<and> m < scan_client_id cd i \<longrightarrow> dict_has cd (client_key m))"
proof (induction cd i rule: scan_client_id.induct)
  case (1 cd i)
  show ?case
  proof (cases "dict_has cd (client_key i)")
    case True
    with 1 have ih: "Suc i \<le> scan_client_id cd (Suc i)"
      "\<not> dict_has cd (client_key (scan_client_id cd (Suc i)))"
      "\<forall>m. Suc i \<le> m \<and> m < scan_client_id cd (Suc i) \<longrightarrow> dict_has cd (client_key m)"
      by auto
    have eq: "scan_client_id cd i = scan_client_id cd (Suc i)"
      using True by (subst scan_client_id.simps) simp
    show ?thesis unfolding eq using ih True
      by (metis Suc_leD Suc_leI le_neq_implies_less)
  next
    case False
    then have "scan_client_id cd i = i" by (subst scan_client_id.simps) simp
    then show ?thesis using False by auto
  qed
qed

lemma client_key_1: "client_key 1 = ''P1''"
  by (simp add: client_key_def str_nat.simps digit_char_def)

lemma client_key_Suc_0: "client_key (Suc 0) = ''P1''"
  using client_key_1 by simp

text \<open>
  Claim C8. On a document that holds \<open>AllStats\<close> and \<open>ClientData\<close>,
  \<open>txn_add_new_client\<close> succeeds. The id it allocates is \<open>P<n>\<close> for the least
  \<open>n \<ge> 1\<close> whose \<open>P<n>\<close> is not yet a key: every smaller \<open>P<m>\<close> is a key. The new
  record is appended under that id with status Active, no weeks paid, nothing paid,
  the given collection day and lend date and an empty \<open>collectionData\<close>.
  \<open>TotalLoans\<close> and \<open>ActiveLoans\<close> grow by one and \<open>ClosedLoans\<close> keeps its value
  (a missing counter reads as 0).
\<close>

theorem addClient_allocates:
  assumes "AllStats c = Some all_stats" and "ClientData c = Some client_data"
  shows "\<exists>n\<ge>1.
     get_next_client_id client_data = client_key n
     \<and> \<not> dict_has client_data (client_key n)
     \<and> (\<forall>m. 1 \<le> m \<and> m < n \<longrightarrow> dict_has client_data (client_key m))
     \<and> txn_add_new_client lend_date collection_day (Some c) =
         Inr (c\<lparr>ClientData := Some (client_data @
                  [(client_key n,
                    \<lparr>Stat = Some \<lparr>ClientName = Some (client_key n),
                                   CollectionDay = Some collection_day,
                                   LendDate = Some lend_date, Status = Some ''Active'',
                                   TotalAmountPaid = Some 0, WeeksPaid = Some 0\<rparr>,
                     collectionData = Some []\<rparr>)]),
                AllStats := Some
                  \<lparr>TotalLoans = Some (get_or (TotalLoans all_stats) 0 + 1),
                   ActiveLoans = Some (get_or (ActiveLoans all_stats) 0 + 1),
                   ClosedLoans = Some (get_or (ClosedLoans all_stats) 0)\<rparr>\<rparr>)"
proof -
  let ?n = "scan_client_id client_data 1"
  have sp: "1 \<le> ?n" "\<not> dict_has client_data (client_key ?n)"
    "\<forall>m. 1 \<le> m \<and> m < ?n \<longrightarrow> dict_has client_data (client_key m)"
    using scan_client_id_spec [of 1 client_data] by auto
  have "txn_add_new_client lend_date collection_day (Some c) =
         Inr (c\<lparr>ClientData := Some (client_data @
                  [(client_key ?n, new_client (client_key ?n) lend_date collection_day)]),
                AllStats := Some
                  \<lparr>TotalLoans = Some (get_or (TotalLoans all_stats) 0 + 1),
                   ActiveLoans = Some (get_or (ActiveLoans all_stats) 0 + 1),
                   ClosedLoans = Some (get_or (ClosedLoans all_stats) 0)\<rparr>\<rparr>)"
    using assms sp(2)
    by (simp add: txn_add_new_client_def get_next_client_id_def dict_set_fresh Let_def)
  then show ?thesis using sp
    by (intro exI [of _ ?n]) (simp add: get_next_client_id_def new_client_def)
qed

theorem addClient_allocates_witness:
  "txn_add_new_client ''2024-01-01'' ''MON''
     (Some \<lparr>AllStats = Some zero_stats, ClientData = Some [], batches = None,
            lastBatch = Some ()\<rparr>) =
   Inr \<lparr>AllStats = Some \<lparr>TotalLoans = Some 1, ActiveLoans = Some 1, ClosedLoans = Some 0\<rparr>,
        ClientData = Some [(''P1'',
          \<lparr>Stat = Some \<lparr>ClientName = Some ''P1'', CollectionDay = Some ''MON'',
                         LendDate = Some ''2024-01-01'', Status = Some ''Active'',
                         TotalAmountPaid = Some 0, WeeksPaid = Some 0\<rparr>,
           collectionData = Some []\<rparr>)],
        batches = None, lastBatch = Some ()\<rparr>"
proof -
  let ?c = "\<lparr>AllStats = Some zero_stats, ClientData = Some [], batches = None,
             lastBatch = Some ()\<rparr>"
  have a: "AllStats ?c = Some zero_stats" and b: "ClientData ?c = Some []" by simp_all
  obtain n where n: "n \<ge> 1"
      "\<forall>m. 1 \<le> m \<and> m < n \<longrightarrow> dict_has ([] :: (string, client_node) dict) (client_key m)"
      "txn_add_new_client ''2024-01-01'' ''MON'' (Some ?c) =
         Inr (?c\<lparr>ClientData := Some ([] @
                  [(client_key n,
                    \<lparr>Stat = Some \<lparr>ClientName = Some (client_key n),
                                   CollectionDay = Some ''MON'',
                                   LendDate = Some ''2024-01-01'', Status = Some ''Active'',
                                   TotalAmountPaid = Some 0, WeeksPaid = Some 0\<rparr>,
                     collectionData = Some []\<rparr>)]),
                AllStats := Some
                  \<lparr>TotalLoans = Some (get_or (TotalLoans zero_stats) 0 + 1),
                   ActiveLoans = Some (get_or (ActiveLoans zero_stats) 0 + 1),
                   ClosedLoans = Some (get_or (ClosedLoans zero_stats) 0)\<rparr>\<rparr>)"
    using addClient_allocates [OF a b, of "''2024-01-01''" "''MON''"] by blast
  have "\<not> 1 < n" using n(2) by (auto simp: dict_has_def dict_keys_def)
  then have "n = 1" using n(1) by simp
  then show ?thesis using n(3) by (simp add: client_key_Suc_0 zero_stats_def get_or_def)
qed

text \<open>
  Claim C10. The record that a successful \<open>txn_add_new_client\<close> stores under the
  allocated id carries that id as its \<open>ClientName\<close>. The transform takes a lend date
  and a collection day and no name.
\<close>

theorem addClient_name_is_id:
  assumes "txn_add_new_client lend_date collection_day (Some c) = Inr c'"
    and "ClientData c = Some client_data"
  shows "\<exists>client_data' node stat.
     ClientData c' = Some client_data'
     \<and> dict_get client_data' (get_next_client_id client_data) = Some node
     \<and> Stat node = Some stat
     \<and> ClientName stat = Some (get_next_client_id client_data)"
  using assms
  by (auto simp: txn_add_new_client_def Let_def dict_get_dict_set new_client_def
           split: option.splits)

theorem addClient_name_is_id_witness:
  "\<exists>client_data' node stat.
     ClientData \<lparr>AllStats = Some \<lparr>TotalLoans = Some 1, ActiveLoans = Some 1,
                                   ClosedLoans = Some 0\<rparr>,
        ClientData = Some [(''P1'', new_client ''P1'' ''2024-01-01'' ''MON'')],
        batches = None, lastBatch = Some ()\<rparr> = Some client_data'
     \<and> dict_get client_data' ''P1'' = Some node
     \<and> Stat node = Some stat
     \<and> ClientName stat = Some ''P1''"
proof -
  let ?c = "\<lparr>AllStats = Some zero_stats, ClientData = Some [], batches = None,
             lastBatch = Some ()\<rparr>"
  let ?c' = "\<lparr>AllStats = Some \<lparr>TotalLoans = Some 1, ActiveLoans = Some 1,
                                   ClosedLoans = Some 0\<rparr>,
        ClientData = Some [(''P1'', new_client ''P1'' ''2024-01-01'' ''MON'')],
        batches = None, lastBatch = Some ()\<rparr>"
  have id: "get_next_client_id ([] :: (string, client_node) dict) = ''P1''"
    by (simp add: get_next_client_id_def scan_client_id.simps dict_has_def dict_keys_def
          client_key_Suc_0)
  have run: "txn_add_new_client ''2024-01-01'' ''MON'' (Some ?c) = Inr ?c'"
    by (simp add: txn_add_new_client_def id zero_stats_def get_or_def Let_def)
  have b: "ClientData ?c = Some []" by simp
  show ?thesis using addClient_name_is_id [OF run b] by (simp only: id)
qed

section \<open>Evaluation on concrete ledgers\<close>

lemmas eval_defs = ensure_user_structure_def batch_mark_today_def sweep_client_def
  sweep_create_def sweep_update_def next_week_of_def week_numbers_def week_of_key_def
  week_key_def str_int_def str_nat.simps digit_char_def lower_def lower_char_def
  get_or_def stat_falsy_def node_falsy_def empty_stat_def empty_node_def empty_entry_def
  empty_stats_def zero_stats_def dict_has_def dict_keys_def dict_get_def dict_del_def
  close_if_done_def startswith_def py_int_def parse_nat_def strip_def is_space_def
  is_digit_def digit_val_def py_max_def List.map_filter_def Let_def
  txn_add_entry_def add_entry_node_def undo_last_batch_def undo_client_def rollback_def

lemma sweep_ledger_p1:
  "batch_mark_today ''2024-01-01'' ''MON'' (Some ledger_p1) = Inr ledger_p1_swept"
  unfolding ledger_p1_def ledger_p1_swept_def by (simp add: eval_defs)

section \<open>The batch sweep\<close>

lemma ensure_fields:
  "AllStats (ensure_user_structure cur) \<noteq> None"
  "ClientData (ensure_user_structure cur) \<noteq> None"
  "lastBatch (ensure_user_structure cur) \<noteq> None"
  by (auto simp: ensure_user_structure_def Let_def split: option.splits)

lemma ensure_fixed:
  "AllStats c \<noteq> None \<Longrightarrow> ClientData c \<noteq> None \<Longrightarrow> lastBatch c \<noteq> None
   \<Longrightarrow> ensure_user_structure (Some c) = c"
  by (auto simp: ensure_user_structure_def Let_def)

lemma batch_mark_today_gate:
  "dict_has (get_or (batches (ensure_user_structure cur)) []) today_date
   \<Longrightarrow> batch_mark_today today_date today_weekday cur = Inr (ensure_user_structure cur)"
  by (simp add: batch_mark_today_def)

lemma batch_mark_today_result:
  assumes "batch_mark_today today_date today_weekday cur = Inr c'"
  shows "AllStats c' \<noteq> None \<and> ClientData c' \<noteq> None \<and> lastBatch c' \<noteq> None
         \<and> dict_has (get_or (batches c') []) today_date"
proof (cases "dict_has (get_or (batches (ensure_user_structure cur)) []) today_date")
  case True
  then have "c' = ensure_user_structure cur"
    using assms by (simp add: batch_mark_today_gate)
  then show ?thesis using True ensure_fields by simp
next
  case False
  then show ?thesis using assms ensure_fields(3) [of cur]
    by (auto simp: batch_mark_today_def Let_def get_or_def dict_has_dict_set
             split: sum.splits)
qed

lemma batch_mark_today_again:
  assumes "batch_mark_today today_date today_weekday cur = Inr c'"
  shows "batch_mark_today today_date today_weekday' (Some c') = Inr c'"
proof -
  have r: "AllStats c' \<noteq> None" "ClientData c' \<noteq> None" "lastBatch c' \<noteq> None"
    "dict_has (get_or (batches c') []) today_date"
    using batch_mark_today_result [OF assms] by auto
  have e: "ensure_user_structure (Some c') = c'" using r by (simp add: ensure_fixed)
  show ?thesis using batch_mark_today_gate [of "Some c'" today_date today_weekday'] r(4)
    by (simp add: e)
qed

text \<open>
  Claim C5. When \<open>batch_mark_today\<close> has returned a document for a date, running it
  again on that document for the same date returns the same document: the document
  holds a receipt for the date, the repair step changes nothing, and the gate returns
  the input. The second call does not look at the weekday. At the store, for every
  stored document (or none), running the sweep transaction twice on one date leaves
  the store as one run does; a sweep that raises writes nothing either time.
\<close>

theorem sweep_idempotent:
  "(batch_mark_today today_date today_weekday cur = Inr c'
      \<longrightarrow> batch_mark_today today_date today_weekday' (Some c') = Inr c')
   \<and> fst (transaction (batch_mark_today today_date today_weekday)
            (fst (transaction (batch_mark_today today_date today_weekday) cur)))
       = fst (transaction (batch_mark_today today_date today_weekday) cur)"
proof (intro conjI impI)
  assume "batch_mark_today today_date today_weekday cur = Inr c'"
  then show "batch_mark_today today_date today_weekday' (Some c') = Inr c'"
    by (rule batch_mark_today_again)
next
  show "fst (transaction (batch_mark_today today_date today_weekday)
            (fst (transaction (batch_mark_today today_date today_weekday) cur)))
       = fst (transaction (batch_mark_today today_date today_weekday) cur)"
  proof (cases "batch_mark_today today_date today_weekday cur")
    case (Inl e)
    then show ?thesis by (simp add: transaction_def)
  next
    case (Inr c1)
    then have "batch_mark_today today_date today_weekday (Some c1) = Inr c1"
      by (rule batch_mark_today_again)
    then show ?thesis using Inr by (simp add: transaction_def)
  qed
qed

theorem sweep_idempotent_witness:
  "batch_mark_today ''2024-01-01'' ''MON'' (Some ledger_p1) = Inr ledger_p1_swept
   \<and> batch_mark_today ''2024-01-01'' ''MON'' (Some ledger_p1_swept) = Inr ledger_p1_swept"
  using sweep_idempotent [of "''2024-01-01''" "''MON''" "Some ledger_p1" ledger_p1_swept "''MON''"]
    sweep_ledger_p1
  by simp

section \<open>Posting an entry\<close>

lemma add_client_start:
  "txn_add_new_client ''2024-01-01'' ''MON'' (Some (ensure_user_structure None)) = Inr ledger_p1"
  by (simp add: txn_add_new_client_def ensure_user_structure_def ledger_p1_def
        get_next_client_id_def scan_client_id.simps dict_has_def dict_keys_def
        client_key_Suc_0 new_client_def zero_stats_def get_or_def Let_def)

lemma reachable_ledger_p1: "reachable ledger_p1"
  using reachable.addClient [OF reachable.start add_client_start] .




lemma py_int_value_fails_iff:
  "(\<exists>e. py_int_value amount = Inl e) \<longleftrightarrow>
     amount = JNull \<or> (\<exists>xs. amount = JList xs) \<or> (\<exists>kvs. amount = JDict kvs)
     \<or> amount = JFloat FInf \<or> amount = JFloat FNegInf \<or> amount = JFloat FNan
     \<or> (\<exists>s. amount = JStr s \<and> py_int s = None)"
proof (cases amount)
  case (JFloat f)
  then show ?thesis by (cases f) auto
qed (auto split: option.splits)

lemma py_int_value_examples:
  "py_int_value (JStr '' 600 '') = Inr 600"
  "py_int_value (JStr ''-5'') = Inr (- 5)"
  "py_int_value (JStr ''6.5'') = Inl ValueError"
  "py_int_value (JStr []) = Inl ValueError"
  "py_int_value (JFloat (FNum 13 (- 1))) = Inr 6"
  "py_int_value (JFloat (FNum (- 13) (- 1))) = Inr (- 6)"
  "py_int_value (JFloat (FNum 3 2)) = Inr 12"
  "py_int_value (JBool True) = Inr 1"
  "py_int_value JNull = Inl TypeError"
  by (simp_all add: eval_defs float_trunc_def)

lemma post_null_amount:
  "txn_add_entry ''P1'' JNull ''2024-01-01'' ''paid'' (Some ledger_p1) = Inl TypeError"
  by (simp add: ledger_p1_def eval_defs)

lemma post_null_amount_week20:
  "txn_add_entry ''P1'' JNull ''2024-01-01'' ''paid'' (Some ledger_week20) = Inl MaxWeeksReached"
  by (simp add: ledger_week20_def eval_defs)







lemma py_max_Max: "xs \<noteq> [] \<Longrightarrow> py_max xs = Max (set xs)"
proof (cases xs)
  case Nil
  assume "xs \<noteq> []"
  with Nil show ?thesis by simp
next
  case (Cons a list)
  then show ?thesis using Max.set_eq_fold [of a list] by (simp add: py_max_def)
qed

lemma week_numbers_mem:
  "dict_has coll k \<Longrightarrow> week_of_key k = Some n \<Longrightarrow> n \<in> set (week_numbers coll)"
  by (force simp: week_numbers_def dict_has_def List.map_filter_def)

lemma next_week_of_Max:
  "next_week_of coll =
     (if week_numbers coll = [] then 0 else Max (set (week_numbers coll))) + 1"
  by (simp add: next_week_of_def Let_def py_max_Max)

lemma next_week_key_fresh: "\<not> dict_has coll (week_key (next_week_of coll))"
proof
  assume h: "dict_has coll (week_key (next_week_of coll))"
  then have m: "next_week_of coll \<in> set (week_numbers coll)"
    using week_numbers_mem week_of_key_week_key by blast
  then have ne: "week_numbers coll \<noteq> []" by auto
  have "next_week_of coll \<le> Max (set (week_numbers coll))" using m by simp
  then show False using ne by (simp add: next_week_of_Max)
qed

lemma add_entry_node_Inr:
  assumes "add_entry_node amount date_str status node stat all_stats = Inr (node', all_stats')"
  shows "\<exists>n. py_int_value amount = Inr n
    \<and> next_week_of (get_or (collectionData node) []) \<le> 20
    \<and> collectionData node' = Some (get_or (collectionData node) [] @
          [(week_key (next_week_of (get_or (collectionData node) [])),
            \<lparr>Amount = Some n, date = Some date_str, entryStatus = Some status\<rparr>)])
    \<and> (\<exists>stat'. Stat node' = Some stat'
          \<and> WeeksPaid stat' = Some (get_or (WeeksPaid stat) 0 + (if status = ''paid'' then 1 else 0))
          \<and> TotalAmountPaid stat' =
               Some (get_or (TotalAmountPaid stat) 0 + (if status = ''paid'' then n else 0))
          \<and> ClientName stat' = ClientName stat \<and> CollectionDay stat' = CollectionDay stat
          \<and> LendDate stat' = LendDate stat
          \<and> (if get_or (WeeksPaid stat) 0 + (if status = ''paid'' then 1 else 0) \<ge> 20
              then Status stat' = Some ''Closed''
                   \<and> all_stats' = all_stats
                        \<lparr>ActiveLoans := Some (get_or (ActiveLoans all_stats) 0 - 1),
                         ClosedLoans := Some (get_or (ClosedLoans all_stats) 0 + 1)\<rparr>
              else Status stat' = Status stat \<and> all_stats' = all_stats))"
proof -
  have le: "next_week_of (get_or (collectionData node) []) \<le> 20"
    using assms by (auto simp: add_entry_node_def Let_def split: if_splits)
  then obtain n where n: "py_int_value amount = Inr n"
    using assms by (cases "py_int_value amount") (auto simp: add_entry_node_def Let_def)
  show ?thesis
    using assms le n next_week_key_fresh [of "get_or (collectionData node) []"]
    by (auto simp: add_entry_node_def Let_def close_if_done_def dict_set_fresh get_or_def
             split: if_splits)
qed

text \<open>
  Claim C7. A successful \<open>txn_add_entry\<close> finds the client with a stat record that is
  not Closed, and appends the new entry under the key \<open>week_key n\<close>, where
  \<open>n\<close> is the largest existing week number (0 when there is none) plus one, at most
  20; the stored \<open>Amount\<close> is the integer \<open>n\<close> that \<open>int(amount)\<close> returns. With
  status \<open>paid\<close> it adds one to \<open>WeeksPaid\<close> and \<open>n\<close> to \<open>TotalAmountPaid\<close>, with any other status both keep their values (a missing counter
  reads as 0). When the resulting \<open>WeeksPaid\<close> is 20 or more the status becomes
  \<open>Closed\<close>, \<open>ActiveLoans\<close> drops by one and \<open>ClosedLoans\<close> grows by one; otherwise
  the status and \<open>AllStats\<close> are unchanged.
\<close>

theorem postEntry_effect:
  assumes "txn_add_entry client_id amount date_str status (Some c) = Inr c'"
  shows "\<exists>n all_stats client_data node stat node' stat' all_stats'.
     py_int_value amount = Inr n
     \<and> AllStats c = Some all_stats \<and> ClientData c = Some client_data
     \<and> dict_get client_data client_id = Some node \<and> Stat node = Some stat
     \<and> Status stat \<noteq> Some ''Closed''
     \<and> c' = c\<lparr>ClientData := Some (dict_set client_data client_id node'),
               AllStats := Some all_stats'\<rparr>
     \<and> next_week_of (get_or (collectionData node) []) =
           (if week_numbers (get_or (collectionData node) []) = [] then 0
            else Max (set (week_numbers (get_or (collectionData node) [])))) + 1
     \<and> next_week_of (get_or (collectionData node) []) \<le> 20
     \<and> collectionData node' = Some (get_or (collectionData node) [] @
          [(week_key (next_week_of (get_or (collectionData node) [])),
            \<lparr>Amount = Some n, date = Some date_str, entryStatus = Some status\<rparr>)])
     \<and> Stat node' = Some stat'
     \<and> WeeksPaid stat' = Some (get_or (WeeksPaid stat) 0 + (if status = ''paid'' then 1 else 0))
     \<and> TotalAmountPaid stat' =
          Some (get_or (TotalAmountPaid stat) 0 + (if status = ''paid'' then n else 0))
     \<and> (if get_or (WeeksPaid stat) 0 + (if status = ''paid'' then 1 else 0) \<ge> 20
         then Status stat' = Some ''Closed''
              \<and> all_stats' = all_stats
                   \<lparr>ActiveLoans := Some (get_or (ActiveLoans all_stats) 0 - 1),
                    ClosedLoans := Some (get_or (ClosedLoans all_stats) 0 + 1)\<rparr>
         else Status stat' = Status stat \<and> all_stats' = all_stats)"
proof -
  obtain all_stats where a: "AllStats c = Some all_stats"
    using assms by (cases "AllStats c") (auto simp: txn_add_entry_def)
  obtain client_data where cd: "ClientData c = Some client_data"
    using assms a by (cases "ClientData c") (auto simp: txn_add_entry_def)
  have nf: "\<not> node_falsy (dict_get client_data client_id)"
    using assms a cd by (auto simp: txn_add_entry_def Let_def split: if_splits)
  then obtain node where nd: "dict_get client_data client_id = Some node"
    by (auto simp: node_falsy_def)
  have sf: "\<not> stat_falsy (Stat node)"
    using assms a cd nf nd by (auto simp: txn_add_entry_def Let_def split: if_splits)
  then obtain stat where st: "Stat node = Some stat" by (auto simp: stat_falsy_def)
  have nc: "Status stat \<noteq> Some ''Closed''"
    using assms a cd nf nd sf st by (auto simp: txn_add_entry_def Let_def split: if_splits)
  obtain node' all_stats' where
    ae: "add_entry_node amount date_str status node stat all_stats = Inr (node', all_stats')"
    and c': "c' = c\<lparr>ClientData := Some (dict_set client_data client_id node'),
                    AllStats := Some all_stats'\<rparr>"
    using assms a cd nf nd sf st nc
    by (auto simp: txn_add_entry_def Let_def split: if_splits sum.splits)
  from add_entry_node_Inr [OF ae] obtain n stat' where
    r: "py_int_value amount = Inr n"
     "next_week_of (get_or (collectionData node) []) \<le> 20"
     "collectionData node' = Some (get_or (collectionData node) [] @
          [(week_key (next_week_of (get_or (collectionData node) [])),
            \<lparr>Amount = Some n, date = Some date_str, entryStatus = Some status\<rparr>)])"
     "Stat node' = Some stat'"
     "WeeksPaid stat' = Some (get_or (WeeksPaid stat) 0 + (if status = ''paid'' then 1 else 0))"
     "TotalAmountPaid stat' =
          Some (get_or (TotalAmountPaid stat) 0 + (if status = ''paid'' then n else 0))"
     "(if get_or (WeeksPaid stat) 0 + (if status = ''paid'' then 1 else 0) \<ge> 20
         then Status stat' = Some ''Closed''
              \<and> all_stats' = all_stats
                   \<lparr>ActiveLoans := Some (get_or (ActiveLoans all_stats) 0 - 1),
                    ClosedLoans := Some (get_or (ClosedLoans all_stats) 0 + 1)\<rparr>
         else Status stat' = Status stat \<and> all_stats' = all_stats)"
    by blast
  show ?thesis
    using a cd nd st nc c' r next_week_of_Max [of "get_or (collectionData node) []"]
    by blast
qed

lemma post_ledger_19_paid:
  "txn_add_entry ''P1'' (JInt 600) ''2024-01-01'' ''paid'' (Some ledger_19_paid) = Inr ledger_20_paid"
  by (simp add: ledger_19_paid_def ledger_20_paid_def paid_19_def eval_defs)

theorem postEntry_effect_witness:
  "txn_add_entry ''P1'' (JInt 600) ''2024-01-01'' ''paid'' (Some ledger_19_paid) = Inr ledger_20_paid
   \<and> (\<exists>n all_stats client_data node stat node' stat' all_stats'.
     py_int_value (JInt 600) = Inr n
     \<and> AllStats ledger_19_paid = Some all_stats \<and> ClientData ledger_19_paid = Some client_data
     \<and> dict_get client_data ''P1'' = Some node \<and> Stat node = Some stat
     \<and> Status stat \<noteq> Some ''Closed''
     \<and> ledger_20_paid = ledger_19_paid\<lparr>ClientData := Some (dict_set client_data ''P1'' node'),
               AllStats := Some all_stats'\<rparr>
     \<and> next_week_of (get_or (collectionData node) []) =
           (if week_numbers (get_or (collectionData node) []) = [] then 0
            else Max (set (week_numbers (get_or (collectionData node) [])))) + 1
     \<and> next_week_of (get_or (collectionData node) []) \<le> 20
     \<and> collectionData node' = Some (get_or (collectionData node) [] @
          [(week_key (next_week_of (get_or (collectionData node) [])),
            \<lparr>Amount = Some n, date = Some ''2024-01-01'', entryStatus = Some ''paid''\<rparr>)])
     \<and> Stat node' = Some stat'
     \<and> WeeksPaid stat' = Some (get_or (WeeksPaid stat) 0 + (if ''paid'' = ''paid'' then 1 else 0))
     \<and> TotalAmountPaid stat' =
          Some (get_or (TotalAmountPaid stat) 0 + (if ''paid'' = ''paid'' then n else 0))
     \<and> (if get_or (WeeksPaid stat) 0 + (if ''paid'' = ''paid'' then 1 else 0) \<ge> 20
         then Status stat' = Some ''Closed''
              \<and> all_stats' = all_stats
                   \<lparr>ActiveLoans := Some (get_or (ActiveLoans all_stats) 0 - 1),
                    ClosedLoans := Some (get_or (ClosedLoans all_stats) 0 + 1)\<rparr>
         else Status stat' = Status stat \<and> all_stats' = all_stats))"
  using postEntry_effect [OF post_ledger_19_paid] post_ledger_19_paid by (intro conjI)

section \<open>The preview of the next client id\<close>

lemma inj_client_key: "inj client_key"
  by (rule injI) (rule client_key_inj)

lemma str_int_int: "str_int (int n) = str_nat n"
  by (simp add: str_int_def)

lemma client_key_parse:
  "startswith (client_key i) ''P''" "py_int (drop 1 (client_key i)) = Some (int i)"
  by (simp_all add: client_key_def startswith_def py_int_str_nat)

lemma max_suffix_client_keys:
  "max_suffix (map client_key ns) m = Max (insert m (int ` set ns))"
proof (induction ns arbitrary: m)
  case Nil
  then show ?case by simp
next
  case (Cons i ns)
  have "max_suffix (map client_key (i # ns)) m = max_suffix (map client_key ns) (max m (int i))"
    using client_key_parse [of i] by (auto simp: max_def)
  also have "\<dots> = Max (insert (max m (int i)) (int ` set ns))" by (rule Cons.IH)
  also have "\<dots> = Max (insert m (int ` set (i # ns)))"
    by (cases "set ns = {}") (simp_all add: max.assoc max.commute max.left_commute)
  finally show ?case .
qed

lemma scan_full_prefix:
  assumes "set (dict_keys client_data) = client_key ` {1..n}"
  shows "scan_client_id client_data 1 = Suc n"
proof -
  let ?r = "scan_client_id client_data 1"
  have sp: "1 \<le> ?r" "\<not> dict_has client_data (client_key ?r)"
    "\<forall>m. 1 \<le> m \<and> m < ?r \<longrightarrow> dict_has client_data (client_key m)"
    using scan_client_id_spec [of 1 client_data] by auto
  have has: "\<And>m. dict_has client_data (client_key m) \<longleftrightarrow> 1 \<le> m \<and> m \<le> n"
    using assms inj_client_key by (auto simp: dict_has_def dest: injD)
  have "\<not> ?r \<le> n" using sp(1,2) has by auto
  moreover have "\<not> Suc n < ?r"
  proof
    assume "Suc n < ?r"
    then have "dict_has client_data (client_key (Suc n))" using sp(3) by auto
    then show False using has by auto
  qed
  ultimately show ?thesis by auto
qed

text \<open>
  Claim C9. When the keys of \<open>ClientData\<close> are exactly \<open>P1, \<dots>, Pn\<close> (\<open>n\<close> may be 0),
  the allocator's scan for the first unused id and the preview route's largest numeric
  suffix plus one give the same id, \<open>P(n+1)\<close>.
\<close>

theorem next_id_preview_agrees:
  assumes "ClientData c = Some client_data"
    and "set (dict_keys client_data) = client_key ` {1..n}"
  shows "get_next_client_id client_data = client_key (Suc n)
         \<and> get_next_client_id_route (Some c) = client_key (Suc n)"
proof
  show "get_next_client_id client_data = client_key (Suc n)"
    using scan_full_prefix [OF assms(2)] by (simp add: get_next_client_id_def)
next
  have ne: "c \<noteq> empty_ledger" using assms(1) by (auto simp: empty_ledger_def)
  show "get_next_client_id_route (Some c) = client_key (Suc n)"
  proof (cases "client_data = []")
    case True
    then have "n = 0" using assms(2) by (auto simp: dict_keys_def)
    then show ?thesis using True assms(1)
      by (simp add: get_next_client_id_route_def client_key_Suc_0)
  next
    case False
    obtain ns where ns: "dict_keys client_data = map client_key ns"
      using assms(2) ex_map_conv [of "dict_keys client_data" client_key] by auto
    have "client_key ` set ns = client_key ` {1..n}" using assms(2) ns by simp
    then have sn: "set ns = {1..n}" using inj_client_key by (simp add: inj_image_eq_iff)
    have "ns \<noteq> []" using False ns by (auto simp: dict_keys_def)
    then have n1: "1 \<le> n" using sn by (cases n) auto
    have "Max (insert 0 (int ` {1..n})) = int n"
    proof (rule Max_eqI)
      show "finite (insert 0 (int ` {1..n}))" by simp
      show "\<And>y. y \<in> insert 0 (int ` {1..n}) \<Longrightarrow> y \<le> int n" by auto
      show "int n \<in> insert 0 (int ` {1..n})" using n1 by auto
    qed
    then have "max_suffix (dict_keys client_data) 0 = int n"
      by (simp add: ns max_suffix_client_keys sn)
    moreover have "str_int (int n + 1) = str_nat (Suc n)"
      using str_int_int [of "Suc n"] by (simp add: add.commute)
    ultimately show ?thesis using False assms(1) ne
      by (simp add: get_next_client_id_route_def client_key_def)
  qed
qed

theorem next_id_preview_agrees_witness:
  "get_next_client_id (get_or (ClientData ledger_p1) []) = ''P2''
   \<and> get_next_client_id_route (Some ledger_p1) = ''P2''"
proof -
  let ?cd = "get_or (ClientData ledger_p1) []"
  have a: "ClientData ledger_p1 = Some ?cd" by (simp add: ledger_p1_def get_or_def)
  have b: "set (dict_keys ?cd) = client_key ` {1..1}"
    by (simp add: ledger_p1_def get_or_def dict_keys_def client_key_Suc_0)
  have k: "client_key (Suc 1) = ''P2''"
    by (simp add: client_key_def str_nat.simps digit_char_def)
  show ?thesis using next_id_preview_agrees [OF a b] by (simp only: k)
qed

section \<open>The loan counters stay balanced\<close>

lemma balancedE:
  assumes "balanced s"
  obtains t a cl where "TotalLoans s = Some t" "ActiveLoans s = Some a" "ClosedLoans s = Some cl"
    "t = a + cl"
  using assms by (auto simp: balanced_def split: option.splits)

lemma close_if_done_balanced:
  "balanced s \<Longrightarrow> close_if_done stat s = (stat', s') \<Longrightarrow> balanced s'"
  by (auto simp: close_if_done_def balanced_def get_or_def split: if_splits option.splits)

lemma rollback_balanced:
  "balanced s \<Longrightarrow> rollback stat amount s = (stat', s') \<Longrightarrow> balanced s'"
  by (auto simp: rollback_def balanced_def get_or_def Let_def split: if_splits option.splits)

lemma add_entry_node_balanced:
  "balanced s \<Longrightarrow> add_entry_node amount date_str status node stat s = Inr (node', s')
   \<Longrightarrow> balanced s'"
  by (auto simp: add_entry_node_def Let_def split: if_splits prod.splits sum.splits
           dest: close_if_done_balanced)

lemma sweep_update_balanced:
  "balanced s \<Longrightarrow> sweep_update cid key node stat coll s r = Inr (node', s', r')
   \<Longrightarrow> balanced s'"
  by (auto simp: sweep_update_def Let_def split: if_splits prod.splits option.splits
           dest: close_if_done_balanced)

lemma sweep_create_balanced:
  "balanced s \<Longrightarrow> sweep_create cid td node stat coll s r = (node', s', r')
   \<Longrightarrow> balanced s'"
  by (auto simp: sweep_create_def Let_def split: if_splits prod.splits
           dest: close_if_done_balanced)

lemma sweep_client_balanced:
  "balanced s \<Longrightarrow> sweep_client td wd cid node s r = Inr (node', s', r') \<Longrightarrow> balanced s'"
  by (auto simp: sweep_client_def Let_def split: if_splits option.splits
           dest: sweep_update_balanced sweep_create_balanced)

lemma sweep_clients_balanced:
  "balanced s \<Longrightarrow> sweep_clients td wd cd s r = Inr (cd', s', r') \<Longrightarrow> balanced s'"
proof (induction cd arbitrary: s r cd' s' r')
  case Nil
  then show ?case by simp
next
  case (Cons p cd)
  obtain cid node where p: "p = (cid, node)" by (cases p)
  from Cons.prems(2) obtain node1 s1 r1 rest' where
    1: "sweep_client td wd cid node s r = Inr (node1, s1, r1)" and
    2: "sweep_clients td wd cd s1 r1 = Inr (rest', s', r')"
    unfolding p by (auto split: sum.splits prod.splits)
  have "balanced s1" using sweep_client_balanced [OF Cons.prems(1) 1] .
  then show ?case using Cons.IH 2 by blast
qed

lemma undo_client_balanced:
  "balanced s \<Longrightarrow> undo_client cid info cd s = (cd', s') \<Longrightarrow> balanced s'"
  by (auto simp: undo_client_def Let_def split: if_splits prod.splits
           dest: rollback_balanced)

lemma undo_record_balanced:
  "balanced s \<Longrightarrow> undo_record receipt cd s = (cd', s') \<Longrightarrow> balanced s'"
proof (induction receipt arbitrary: cd s)
  case Nil
  then show ?case by simp
next
  case (Cons p receipt)
  obtain cid info where p: "p = (cid, info)" by (cases p)
  obtain cd1 s1 where 1: "undo_client cid info cd s = (cd1, s1)" by (cases "undo_client cid info cd s")
  have "balanced s1" using undo_client_balanced [OF Cons.prems(1) 1] .
  then show ?case using Cons.IH [of s1 cd1] Cons.prems(2) 1 unfolding p by simp
qed

lemma ensure_stats_balanced:
  "stats_balanced c \<Longrightarrow> AllStats (ensure_user_structure (Some c)) = AllStats c"
  by (auto simp: ensure_user_structure_def stats_balanced_def Let_def split: option.splits)

lemma stats_balanced_start: "stats_balanced (ensure_user_structure None)"
  by (simp add: ensure_user_structure_def stats_balanced_def balanced_def zero_stats_def)

lemma addClient_stats_balanced:
  "stats_balanced c \<Longrightarrow> txn_add_new_client ld cday (Some c) = Inr c' \<Longrightarrow> stats_balanced c'"
  by (auto simp: txn_add_new_client_def stats_balanced_def balanced_def get_or_def Let_def
           split: option.splits)

lemma postEntry_stats_balanced:
  "stats_balanced c \<Longrightarrow> txn_add_entry cid amount d st (Some c) = Inr c' \<Longrightarrow> stats_balanced c'"
  by (auto simp: txn_add_entry_def stats_balanced_def Let_def
           split: option.splits if_splits sum.splits
           dest: add_entry_node_balanced)

lemma sweep_stats_balanced:
  assumes "stats_balanced c" and "batch_mark_today td wd (Some c) = Inr c'"
  shows "stats_balanced c'"
proof -
  obtain s where s: "AllStats c = Some s" "balanced s"
    using assms(1) by (auto simp: stats_balanced_def split: option.splits)
  have e: "AllStats (ensure_user_structure (Some c)) = Some s"
    using ensure_stats_balanced [OF assms(1)] s by simp
  show ?thesis
  proof (cases "dict_has (get_or (batches (ensure_user_structure (Some c))) []) td")
    case True
    then have "c' = ensure_user_structure (Some c)"
      using assms(2) by (simp add: batch_mark_today_gate)
    then show ?thesis using e s by (simp add: stats_balanced_def)
  next
    case False
    then obtain cd' s' r' where
      sw: "sweep_clients td wd (get_or (ClientData (ensure_user_structure (Some c))) []) s []
             = Inr (cd', s', r')"
      and c': "AllStats c' = Some s'"
      using assms(2) e
      by (auto simp: batch_mark_today_def Let_def get_or_def split: sum.splits)
    have "balanced s'" using sweep_clients_balanced [OF s(2) sw] .
    then show ?thesis using c' by (simp add: stats_balanced_def)
  qed
qed

lemma undo_stats_balanced:
  assumes "stats_balanced c"
  shows "stats_balanced (undo_last_batch (Some c))"
proof -
  obtain s where s: "AllStats c = Some s" "balanced s"
    using assms(1) by (auto simp: stats_balanced_def split: option.splits)
  have e: "AllStats (ensure_user_structure (Some c)) = Some s"
    using ensure_stats_balanced [OF assms(1)] s by simp
  show ?thesis
  proof (cases "get_or (batches (ensure_user_structure (Some c))) [] = []")
    case True
    then show ?thesis using e s by (simp add: undo_last_batch_def stats_balanced_def)
  next
    case False
    let ?bs = "get_or (batches (ensure_user_structure (Some c))) []"
    let ?rec = "get_or (dict_get ?bs (last (sort (dict_keys ?bs)))) []"
    obtain cd' s' where
      u: "undo_record ?rec (get_or (ClientData (ensure_user_structure (Some c))) []) s = (cd', s')"
      by (cases "undo_record ?rec (get_or (ClientData (ensure_user_structure (Some c))) []) s")
    have "balanced s'" using undo_record_balanced [OF s(2) u] .
    moreover have "AllStats (undo_last_batch (Some c)) = Some s'"
      using False u e by (simp add: undo_last_batch_def Let_def get_or_def)
    ultimately show ?thesis by (simp add: stats_balanced_def)
  qed
qed

lemma reachable_ledger_p1_swept: "reachable ledger_p1_swept"
  using reachable.sweepToday [OF reachable_ledger_p1 sweep_ledger_p1] .

text \<open>
  Claim C3. In every ledger reachable from the repaired empty document by successful
  \<open>txn_add_new_client\<close>, \<open>txn_add_entry\<close>, \<open>batch_mark_today\<close> and
  \<open>undo_last_batch\<close> steps, \<open>AllStats\<close> holds its three counters and
  \<open>TotalLoans = ActiveLoans + ClosedLoans\<close>.
\<close>

theorem reachable_stats_balanced:
  assumes "reachable c"
  shows "\<exists>t a cl. AllStats c = Some \<lparr>TotalLoans = Some t, ActiveLoans = Some a,
                                      ClosedLoans = Some cl\<rparr> \<and> t = a + cl"
proof -
  have "stats_balanced c" using assms
  proof (induction rule: reachable.induct)
    case start
    show ?case by (rule stats_balanced_start)
  next
    case (addClient c lend_date collection_day c')
    then show ?case using addClient_stats_balanced by blast
  next
    case (postEntry c client_id amount date_str status c')
    then show ?case using postEntry_stats_balanced by blast
  next
    case (sweepToday c today_date today_weekday c')
    then show ?case using sweep_stats_balanced by blast
  next
    case (undoLastBatch c)
    then show ?case using undo_stats_balanced by blast
  qed
  then obtain s where s: "AllStats c = Some s" "balanced s"
    by (auto simp: stats_balanced_def split: option.splits)
  from s(2) obtain t a cl where
    "TotalLoans s = Some t" "ActiveLoans s = Some a" "ClosedLoans s = Some cl" "t = a + cl"
    by (rule balancedE)
  then have "s = \<lparr>TotalLoans = Some t, ActiveLoans = Some a, ClosedLoans = Some cl\<rparr>"
    by (cases s) simp
  then show ?thesis using s(1) \<open>t = a + cl\<close> by blast
qed

theorem reachable_stats_balanced_witness:
  "reachable ledger_p1_swept
   \<and> (\<exists>t a cl. AllStats ledger_p1_swept = Some \<lparr>TotalLoans = Some t, ActiveLoans = Some a,
                                      ClosedLoans = Some cl\<rparr> \<and> t = a + cl)"
  using reachable_stats_balanced [OF reachable_ledger_p1_swept] reachable_ledger_p1_swept
  by (intro conjI)

section \<open>Sweep and undo on the scenario ledgers\<close>

lemma post_pending_500:
  "txn_add_entry ''P1'' (JInt 500) ''2024-01-01'' ''pending'' (Some ledger_p1) = Inr ledger_pending_500"
  by (simp add: ledger_p1_def ledger_pending_500_def eval_defs)

lemma reachable_ledger_pending_500: "reachable ledger_pending_500"
  using reachable.postEntry [OF reachable_ledger_p1 post_pending_500] .

lemma sweep_pending_500:
  "batch_mark_today ''2024-01-01'' ''MON'' (Some ledger_pending_500)
     = Inr ledger_pending_500_swept"
  by (simp add: ledger_pending_500_def ledger_pending_500_swept_def eval_defs)

lemma undo_pending_500:
  "undo_last_batch (Some ledger_pending_500_swept) = ledger_pending_500_undone"
  by (simp add: ledger_pending_500_swept_def ledger_pending_500_undone_def eval_defs)

lemma post_second_week:
  "txn_add_entry ''P1'' (JInt 600) ''2024-01-02'' ''paid'' (Some ledger_p1_swept) = Inr ledger_two_weeks"
  by (simp add: ledger_p1_swept_def ledger_two_weeks_def eval_defs)

lemma undo_ledger_p1_swept:
  "undo_last_batch (Some ledger_p1_swept) = ledger_p1\<lparr>batches := Some []\<rparr>"
  by (simp add: ledger_p1_swept_def ledger_p1_def eval_defs)

lemma undo_two_weeks: "undo_last_batch (Some ledger_two_weeks) = ledger_gap"
  by (simp add: ledger_two_weeks_def ledger_gap_def eval_defs)

lemma reachable_ledger_gap: "reachable ledger_gap"
  using reachable.undoLastBatch [OF reachable.postEntry [OF reachable_ledger_p1_swept
          post_second_week]]
  by (simp add: undo_two_weeks)

text \<open>
  Claim C1, at a ledger where it fails. The ledger \<open>ledger_pending_500\<close> is reachable
  (one client, one pending entry of 500 dated 2024-01-01) and holds no receipt. The
  sweep of that Monday credits 600 for the entry, the undo takes back the entry's
  amount of 500, and \<open>TotalAmountPaid\<close> ends at 100 where it was 0: the client's stat
  record is not restored.
\<close>

theorem sweep_undo_total_not_restored:
  "reachable ledger_pending_500
   \<and> batch_mark_today ''2024-01-01'' ''MON'' (Some ledger_pending_500)
       = Inr ledger_pending_500_swept
   \<and> undo_last_batch (Some ledger_pending_500_swept) = ledger_pending_500_undone
   \<and> ClientData ledger_pending_500_undone \<noteq> ClientData ledger_pending_500"
  using reachable_ledger_pending_500 sweep_pending_500 undo_pending_500
  by (simp add: ledger_pending_500_undone_def ledger_pending_500_def)

section \<open>Weeks paid and week keys\<close>

subsection \<open>Collections\<close>

lemma week_key_in_range_iff: "week_key n \<in> week_key ` {1..20} \<longleftrightarrow> 1 \<le> n \<and> n \<le> 20"
  by (auto dest: week_key_inj)

lemma week_numbers_keys_ok:
  assumes "week_keys_ok coll"
  shows "\<forall>n \<in> set (week_numbers coll). 1 \<le> n \<and> n \<le> 20"
proof
  fix n assume "n \<in> set (week_numbers coll)"
  then obtain k where k: "k \<in> set (dict_keys coll)" "week_of_key k = Some n"
    by (auto simp: week_numbers_def List.map_filter_def)
  then obtain m where m: "k = week_key m" "1 \<le> m" "m \<le> 20"
    using assms by (auto simp: week_keys_ok_def list_all_iff)
  then show "1 \<le> n \<and> n \<le> 20" using k(2) by (simp add: week_of_key_week_key)
qed

lemma next_week_ge_1:
  assumes "week_keys_ok coll"
  shows "1 \<le> next_week_of coll"
proof (cases "week_numbers coll = []")
  case True
  then show ?thesis by (simp add: next_week_of_Max)
next
  case False
  then have "Max (set (week_numbers coll)) \<in> set (week_numbers coll)" by simp
  then have "1 \<le> Max (set (week_numbers coll))" using week_numbers_keys_ok [OF assms] by blast
  then show ?thesis using False by (simp add: next_week_of_Max)
qed

lemma week_keys_ok_append:
  assumes "week_keys_ok coll" and "next_week_of coll \<le> 20"
  shows "week_keys_ok (coll @ [(week_key (next_week_of coll), e)])"
  using assms next_week_key_fresh [of coll] next_week_ge_1 [OF assms(1)]
  by (auto simp: week_keys_ok_def dict_keys_def dict_has_def)

lemma week_numbers_in_order:
  assumes "keys_in_order coll"
  shows "week_numbers coll = map int [1..<Suc (length coll)]"
proof -
  have "List.map_filter week_of_key (map (\<lambda>i. week_key (int i)) ns) = map int ns" for ns
    by (induction ns) (simp_all add: week_of_key_week_key)
  then show ?thesis using assms by (simp add: week_numbers_def keys_in_order_def)
qed

lemma next_week_in_order:
  assumes "keys_in_order coll"
  shows "next_week_of coll = int (Suc (length coll))"
proof (cases "coll = []")
  case True
  then show ?thesis by (simp add: next_week_of_Max week_numbers_def dict_keys_def)
next
  case False
  then have len: "Suc 0 \<le> length coll" by (cases coll) auto
  have wn: "week_numbers coll = map int [1..<Suc (length coll)]"
    by (rule week_numbers_in_order [OF assms])
  have ne: "week_numbers coll \<noteq> []" using False unfolding wn by (simp del: upt_Suc)
  have "Max (set (week_numbers coll)) = int (length coll)"
  proof (rule Max_eqI)
    show "finite (set (week_numbers coll))" by simp
    show "\<And>y. y \<in> set (week_numbers coll) \<Longrightarrow> y \<le> int (length coll)" using wn by auto
    have "length coll \<in> {1..<Suc (length coll)}" using len by simp
    then show "int (length coll) \<in> set (week_numbers coll)"
      unfolding wn set_map set_upt by (rule imageI)
  qed
  then show ?thesis using ne by (simp add: next_week_of_Max)
qed

lemma keys_in_order_append:
  assumes "keys_in_order coll"
  shows "keys_in_order (coll @ [(week_key (next_week_of coll), e)])"
  using assms by (simp add: keys_in_order_def dict_keys_def next_week_in_order [OF assms])

lemma keys_in_order_dense: "keys_in_order coll \<Longrightarrow> weeks_dense coll"
  by (simp add: keys_in_order_def weeks_dense_def)

lemma find_today_entry_has:
  "find_today_entry coll today_date = Some k \<Longrightarrow> dict_has coll k"
  by (induction coll) (auto simp: dict_has_def dict_keys_def split: if_splits)

lemma dict_keys_dict_set_has: "dict_has d k \<Longrightarrow> dict_keys (dict_set d k v) = dict_keys d"
  by (simp add: dict_keys_dict_set)

lemma length_dict_set_has: "dict_has d k \<Longrightarrow> length (dict_set d k v) = length d"
  using dict_keys_dict_set_has [of d k v] by (metis dict_keys_def length_map)

lemma week_keys_ok_set:
  "week_keys_ok coll \<Longrightarrow> dict_has coll k \<Longrightarrow> week_keys_ok (dict_set coll k e)"
  by (simp add: week_keys_ok_def dict_keys_dict_set_has)

lemma keys_in_order_set:
  "keys_in_order coll \<Longrightarrow> dict_has coll k \<Longrightarrow> keys_in_order (dict_set coll k e)"
  by (simp add: keys_in_order_def dict_keys_dict_set_has length_dict_set_has)

lemma week_keys_ok_del: "week_keys_ok coll \<Longrightarrow> week_keys_ok (dict_del coll k)"
  by (auto simp: week_keys_ok_def dict_del_def dict_keys_def list_all_iff distinct_map_filter)

subsection \<open>Stat records\<close>

lemma lower_Closed: "lower ''Closed'' \<noteq> ''active''"
  by (simp add: lower_def lower_char_def)

lemma stat_ok_not_closed:
  "stat_ok stat \<Longrightarrow> Status stat \<noteq> Some ''Closed''
   \<Longrightarrow> Status stat = Some ''Active'' \<and> (\<exists>w. WeeksPaid stat = Some w \<and> 0 \<le> w \<and> w \<le> 19)"
  by (auto simp: stat_ok_def split: option.splits)

lemma stat_ok_lower_active:
  "stat_ok stat \<Longrightarrow> lower (get_or (Status stat) []) = ''active''
   \<Longrightarrow> Status stat \<noteq> Some ''Closed''"
  using lower_Closed by (auto simp: get_or_def)

lemma close_if_done_stat_ok:
  assumes "Status stat = Some ''Active''" and "WeeksPaid stat = Some w" and "0 \<le> w" and "w \<le> 20"
    and "close_if_done stat s = (stat', s')"
  shows "stat_ok stat'"
  using assms by (auto simp: close_if_done_def stat_ok_def get_or_def split: if_splits)

lemma rollback_stat_ok:
  "stat_ok stat \<Longrightarrow> rollback stat amount s = (stat', s') \<Longrightarrow> stat_ok stat'"
  by (auto simp: rollback_def stat_ok_def get_or_def Let_def split: if_splits option.splits)

subsection \<open>Client nodes\<close>

lemma node_inv_new_client: "node_inv dense (new_client pid lend_date collection_day)"
  by (simp add: node_inv_def new_client_def stat_ok_def week_keys_ok_def keys_in_order_def
        get_or_def dict_keys_def)

lemma add_entry_node_inv:
  assumes inv: "node_inv dense node" and st: "Stat node = Some stat"
    and nc: "Status stat \<noteq> Some ''Closed''"
    and run: "add_entry_node amount date_str status node stat s = Inr (node', s')"
  shows "node_inv dense node'"
proof -
  let ?coll = "get_or (collectionData node) []"
  have ok: "stat_ok stat" using inv st by (simp add: node_inv_def)
  obtain w where w: "Status stat = Some ''Active''" "WeeksPaid stat = Some w" "0 \<le> w" "w \<le> 19"
    using stat_ok_not_closed [OF ok nc] by auto
  have le: "next_week_of ?coll \<le> 20"
    using run by (auto simp: add_entry_node_def Let_def split: if_splits)
  then obtain n where n: "py_int_value amount = Inr n"
    using run by (cases "py_int_value amount") (auto simp: add_entry_node_def Let_def)
  let ?stat1 = "stat\<lparr>WeeksPaid := Some (w + (if status = ''paid'' then 1 else 0)),
                       TotalAmountPaid := Some (get_or (TotalAmountPaid stat) 0
                             + (if status = ''paid'' then n else 0))\<rparr>"
  obtain stat2 where c: "close_if_done ?stat1 s = (stat2, s')"
    and n': "node' = node\<lparr>collectionData := Some (?coll @ [(week_key (next_week_of ?coll),
                \<lparr>Amount = Some n, date = Some date_str, entryStatus = Some status\<rparr>)]),
                Stat := Some stat2\<rparr>"
    using run le n w next_week_key_fresh [of ?coll]
    by (auto simp: add_entry_node_def Let_def dict_set_fresh get_or_def split: prod.splits)
  have "stat_ok stat2"
    using close_if_done_stat_ok [OF _ _ _ _ c, of "w + (if status = ''paid'' then 1 else 0)"] w
    by auto
  moreover have "week_keys_ok ?coll" using inv by (simp add: node_inv_def)
  ultimately show ?thesis
    using inv le
    by (simp add: n' node_inv_def get_or_def week_keys_ok_append keys_in_order_append)
qed

lemma sweep_create_inv:
  assumes inv: "node_inv dense node" and st: "Stat node = Some stat"
    and nc: "Status stat \<noteq> Some ''Closed''"
    and run: "sweep_create cid td node stat (get_or (collectionData node) []) s r = (node', s', r')"
  shows "node_inv dense node'"
proof (cases "next_week_of (get_or (collectionData node) []) > 20")
  case True
  then show ?thesis using run inv by (simp add: sweep_create_def)
next
  case False
  let ?coll = "get_or (collectionData node) []"
  have ok: "stat_ok stat" using inv st by (simp add: node_inv_def)
  obtain w where w: "Status stat = Some ''Active''" "WeeksPaid stat = Some w" "0 \<le> w" "w \<le> 19"
    using stat_ok_not_closed [OF ok nc] by auto
  let ?stat1 = "stat\<lparr>WeeksPaid := Some (w + 1),
                       TotalAmountPaid := Some (get_or (TotalAmountPaid stat) 0 + 600)\<rparr>"
  obtain stat2 where c: "close_if_done ?stat1 s = (stat2, s')"
    and n': "node' = node\<lparr>collectionData := Some (?coll @ [(week_key (next_week_of ?coll),
                \<lparr>Amount = Some 600, date = Some td, entryStatus = Some ''paid''\<rparr>)]),
                Stat := Some stat2\<rparr>"
    using run False w next_week_key_fresh [of ?coll]
    by (auto simp: sweep_create_def Let_def dict_set_fresh get_or_def split: prod.splits)
  have "stat_ok stat2"
    using close_if_done_stat_ok [OF _ _ _ _ c, of "w + 1"] w by auto
  moreover have "week_keys_ok ?coll" using inv by (simp add: node_inv_def)
  ultimately show ?thesis
    using inv False
    by (simp add: n' node_inv_def get_or_def week_keys_ok_append keys_in_order_append)
qed

lemma sweep_update_inv:
  assumes inv: "node_inv dense node" and st: "Stat node = Some stat"
    and nc: "Status stat \<noteq> Some ''Closed''"
    and has: "dict_has (get_or (collectionData node) []) key"
    and run: "sweep_update cid key node stat (get_or (collectionData node) []) s r
                = Inr (node', s', r')"
  shows "node_inv dense node'"
proof (cases "lower (get_or (entryStatus (get_or (dict_get (get_or (collectionData node) []) key)
                 empty_entry)) []) = ''paid''")
  case True
  then show ?thesis using run inv by (simp add: sweep_update_def Let_def)
next
  case False
  let ?coll = "get_or (collectionData node) []"
  let ?entry = "get_or (dict_get ?coll key) empty_entry"
  have ok: "stat_ok stat" using inv st by (simp add: node_inv_def)
  obtain w where w: "Status stat = Some ''Active''" "WeeksPaid stat = Some w" "0 \<le> w" "w \<le> 19"
    using stat_ok_not_closed [OF ok nc] by auto
  let ?stat1 = "stat\<lparr>WeeksPaid := Some (w + 1),
                       TotalAmountPaid := Some (get_or (TotalAmountPaid stat) 0 + 600)\<rparr>"
  obtain stat2 where c: "close_if_done ?stat1 s = (stat2, s')"
    and n': "node' = node\<lparr>collectionData :=
                Some (dict_set ?coll key (?entry\<lparr>entryStatus := Some ''paid''\<rparr>)),
                Stat := Some stat2\<rparr>"
    using run False w
    by (auto simp: sweep_update_def Let_def get_or_def split: prod.splits option.splits)
  have "stat_ok stat2"
    using close_if_done_stat_ok [OF _ _ _ _ c, of "w + 1"] w by auto
  moreover have "week_keys_ok ?coll" using inv by (simp add: node_inv_def)
  ultimately show ?thesis
    using inv has
    by (simp add: n' node_inv_def get_or_def week_keys_ok_set keys_in_order_set)
qed

lemma sweep_client_inv:
  assumes inv: "node_inv dense node"
    and run: "sweep_client td wd cid node s r = Inr (node', s', r')"
  shows "node_inv dense node'"
proof -
  obtain stat where st: "Stat node = Some stat" and ok: "stat_ok stat"
    using inv by (auto simp: node_inv_def split: option.splits)
  have ne: "stat \<noteq> empty_stat" using ok by (auto simp: stat_ok_def empty_stat_def)
  show ?thesis
  proof (cases "lower (get_or (Status stat) []) = ''active'' \<and> CollectionDay stat = Some wd")
    case False
    then have "node' = node" using run st ne
      by (auto simp: sweep_client_def stat_falsy_def Let_def split: if_splits)
    then show ?thesis using inv by simp
  next
    case True
    then have nc: "Status stat \<noteq> Some ''Closed''" using stat_ok_lower_active [OF ok] by simp
    let ?coll = "get_or (collectionData node) []"
    show ?thesis
    proof (cases "find_today_entry ?coll td")
      case None
      then have "sweep_create cid td node stat ?coll s r = (node', s', r')"
        using run st ne True by (simp add: sweep_client_def stat_falsy_def Let_def)
      then show ?thesis by (rule sweep_create_inv [OF inv st nc])
    next
      case (Some key)
      show ?thesis
      proof (cases "key = []")
        case True
        then have "sweep_create cid td node stat ?coll s r = (node', s', r')"
          using run st ne \<open>lower (get_or (Status stat) []) = ''active'' \<and> CollectionDay stat = Some wd\<close> Some
          by (simp add: sweep_client_def stat_falsy_def Let_def)
        then show ?thesis by (rule sweep_create_inv [OF inv st nc])
      next
        case False
        then have "sweep_update cid key node stat ?coll s r = Inr (node', s', r')"
          using run st ne True Some by (simp add: sweep_client_def stat_falsy_def Let_def)
        then show ?thesis
          using sweep_update_inv [OF inv st nc find_today_entry_has [OF Some]] by blast
      qed
    qed
  qed
qed

subsection \<open>Ledgers\<close>

lemma list_all_dict_set: "list_all P d \<Longrightarrow> P (k, v) \<Longrightarrow> list_all P (dict_set d k v)"
  by (induction d) auto

lemma dict_get_in_set: "dict_get d k = Some v \<Longrightarrow> (k, v) \<in> set d"
  by (simp add: dict_get_def map_of_SomeD)

lemma ensure_client_data:
  "ClientData c \<noteq> None \<Longrightarrow> ClientData (ensure_user_structure (Some c)) = ClientData c"
  by (auto simp: ensure_user_structure_def Let_def)

lemma ledger_inv_start: "ledger_inv dense (ensure_user_structure None)"
  by (simp add: ledger_inv_def clients_all_def ensure_user_structure_def get_or_def)

lemma addClient_ledger_inv:
  "ledger_inv dense c \<Longrightarrow> txn_add_new_client ld cday (Some c) = Inr c' \<Longrightarrow> ledger_inv dense c'"
  by (auto simp: txn_add_new_client_def ledger_inv_def clients_all_def get_or_def Let_def
           node_inv_new_client
           split: option.splits intro!: list_all_dict_set)

lemma postEntry_ledger_inv:
  assumes inv: "ledger_inv dense c"
    and run: "txn_add_entry cid amount d st (Some c) = Inr c'"
  shows "ledger_inv dense c'"
proof -
  obtain all_stats where a: "AllStats c = Some all_stats"
    using run by (cases "AllStats c") (auto simp: txn_add_entry_def)
  obtain cd where cd: "ClientData c = Some cd"
    using run a by (cases "ClientData c") (auto simp: txn_add_entry_def)
  have nf: "\<not> node_falsy (dict_get cd cid)"
    using run a cd by (auto simp: txn_add_entry_def Let_def split: if_splits)
  then obtain node where nd: "dict_get cd cid = Some node"
    by (auto simp: node_falsy_def)
  have sf: "\<not> stat_falsy (Stat node)"
    using run a cd nf nd by (auto simp: txn_add_entry_def Let_def split: if_splits)
  then obtain stat where st: "Stat node = Some stat" by (auto simp: stat_falsy_def)
  have nc: "Status stat \<noteq> Some ''Closed''"
    using run a cd nf nd sf st by (auto simp: txn_add_entry_def Let_def split: if_splits)
  obtain node' all_stats' where
    ae: "add_entry_node amount d st node stat all_stats = Inr (node', all_stats')"
    and c': "c' = c\<lparr>ClientData := Some (dict_set cd cid node'),
                    AllStats := Some all_stats'\<rparr>"
    using run a cd nf nd sf st nc
    by (auto simp: txn_add_entry_def Let_def split: if_splits sum.splits)
  have all: "list_all (\<lambda>(client_id, node). node_inv dense node) cd"
    using inv cd by (simp add: ledger_inv_def clients_all_def get_or_def)
  then have "node_inv dense node"
    using dict_get_in_set [OF nd] by (auto simp: list_all_iff)
  then have "node_inv dense node'" using add_entry_node_inv st nc ae by blast
  then show ?thesis using all
    by (simp add: c' ledger_inv_def clients_all_def get_or_def list_all_dict_set)
qed

lemma sweep_clients_inv:
  "list_all (\<lambda>(client_id, node). node_inv dense node) cd
   \<Longrightarrow> sweep_clients td wd cd s r = Inr (cd', s', r')
   \<Longrightarrow> list_all (\<lambda>(client_id, node). node_inv dense node) cd'"
proof (induction cd arbitrary: s r cd' s' r')
  case Nil
  then show ?case by simp
next
  case (Cons p cd)
  obtain cid node where p: "p = (cid, node)" by (cases p)
  from Cons.prems(2) obtain node1 s1 r1 rest' where
    1: "sweep_client td wd cid node s r = Inr (node1, s1, r1)" and
    2: "sweep_clients td wd cd s1 r1 = Inr (rest', s', r')" and
    3: "cd' = (cid, node1) # rest'"
    unfolding p by (auto split: sum.splits prod.splits)
  have "node_inv dense node" using Cons.prems(1) p by simp
  then have "node_inv dense node1" using sweep_client_inv 1 by blast
  moreover have "list_all (\<lambda>(client_id, node). node_inv dense node) rest'"
    using Cons.IH [OF _ 2] Cons.prems(1) by simp
  ultimately show ?case using 3 by simp
qed

lemma sweep_ledger_inv:
  assumes inv: "ledger_inv dense c" and run: "batch_mark_today td wd (Some c) = Inr c'"
  shows "ledger_inv dense c'"
proof -
  obtain cd where cd: "ClientData c = Some cd"
    and all: "list_all (\<lambda>(client_id, node). node_inv dense node) cd"
    using inv by (auto simp: ledger_inv_def clients_all_def get_or_def)
  have e: "ClientData (ensure_user_structure (Some c)) = Some cd"
    using ensure_client_data [of c] cd by simp
  show ?thesis
  proof (cases "dict_has (get_or (batches (ensure_user_structure (Some c))) []) td")
    case True
    then have "c' = ensure_user_structure (Some c)"
      using run by (simp add: batch_mark_today_gate)
    then show ?thesis using e all by (simp add: ledger_inv_def clients_all_def get_or_def)
  next
    case False
    then obtain cd' s' r' where
      sw: "sweep_clients td wd cd (get_or (AllStats (ensure_user_structure (Some c))) empty_stats) []
             = Inr (cd', s', r')"
      and c': "ClientData c' = Some cd'"
      using run e
      by (auto simp: batch_mark_today_def Let_def get_or_def split: sum.splits option.splits)
    have "list_all (\<lambda>(client_id, node). node_inv dense node) cd'"
      using sweep_clients_inv [OF all sw] .
    then show ?thesis using c' by (simp add: ledger_inv_def clients_all_def get_or_def)
  qed
qed

lemma undo_client_inv:
  assumes all: "list_all (\<lambda>(client_id, node). node_inv False node) cd"
    and run: "undo_client cid info cd s = (cd', s')"
  shows "list_all (\<lambda>(client_id, node). node_inv False node) cd'"
proof (cases "node_falsy (dict_get cd cid)")
  case True
  then show ?thesis using run all by (simp add: undo_client_def)
next
  case False
  then obtain node where nd: "dict_get cd cid = Some node" by (auto simp: node_falsy_def)
  have inv: "node_inv False node"
    using all dict_get_in_set [OF nd] by (auto simp: list_all_iff)
  then obtain stat where st: "Stat node = Some stat" and ok: "stat_ok stat"
    by (auto simp: node_inv_def split: option.splits)
  let ?coll = "get_or (collectionData node) []"
  let ?wkey = "week_key (week info)"
  have kok: "week_keys_ok ?coll" using inv by (simp add: node_inv_def)
  show ?thesis
  proof (cases "dict_has ?coll ?wkey \<and> \<not> stat_falsy (Stat node)")
    case f: False
    then have "cd' = cd" using run nd False by (auto simp: undo_client_def Let_def)
    then show ?thesis using all by simp
  next
    case t: True
    let ?amount = "get_or (Amount (get_or (dict_get ?coll ?wkey) empty_entry)) 600"
    obtain stat1 s1 where rb: "rollback stat ?amount s = (stat1, s1)"
      by (cases "rollback stat ?amount s")
    have ok1: "stat_ok stat1" using rollback_stat_ok [OF ok rb] .
    obtain coll' stat' where
      n: "cd' = dict_set cd cid (node\<lparr>collectionData := Some coll', Stat := Some stat'\<rparr>)"
      and cs: "(coll' = dict_del ?coll ?wkey \<and> stat' = stat1)
               \<or> (coll' = dict_set ?coll ?wkey
                      ((get_or (dict_get ?coll ?wkey) empty_entry)\<lparr>entryStatus := Some ''pending''\<rparr>)
                   \<and> stat' = stat1)
               \<or> (coll' = ?coll \<and> stat' = stat)"
      using run nd False t st rb
      by (auto simp: undo_client_def Let_def split: if_splits)
    have "week_keys_ok coll'" using cs kok t
      by (auto simp: week_keys_ok_del week_keys_ok_set)
    moreover have "stat_ok stat'" using cs ok ok1 by auto
    ultimately have "node_inv False (node\<lparr>collectionData := Some coll', Stat := Some stat'\<rparr>)"
      by (simp add: node_inv_def get_or_def)
    then show ?thesis using all by (simp add: n list_all_dict_set)
  qed
qed

lemma undo_record_inv:
  "list_all (\<lambda>(client_id, node). node_inv False node) cd
   \<Longrightarrow> undo_record receipt cd s = (cd', s')
   \<Longrightarrow> list_all (\<lambda>(client_id, node). node_inv False node) cd'"
proof (induction receipt arbitrary: cd s)
  case Nil
  then show ?case by simp
next
  case (Cons p receipt)
  obtain cid info where p: "p = (cid, info)" by (cases p)
  obtain cd1 s1 where 1: "undo_client cid info cd s = (cd1, s1)"
    by (cases "undo_client cid info cd s")
  have "list_all (\<lambda>(client_id, node). node_inv False node) cd1"
    using undo_client_inv [OF Cons.prems(1) 1] .
  then show ?case using Cons.IH [of cd1 s1] Cons.prems(2) 1 unfolding p by simp
qed

lemma undo_ledger_inv:
  assumes inv: "ledger_inv False c"
  shows "ledger_inv False (undo_last_batch (Some c))"
proof -
  obtain cd where cd: "ClientData c = Some cd"
    and all: "list_all (\<lambda>(client_id, node). node_inv False node) cd"
    using inv by (auto simp: ledger_inv_def clients_all_def get_or_def)
  have e: "ClientData (ensure_user_structure (Some c)) = Some cd"
    using ensure_client_data [of c] cd by simp
  show ?thesis
  proof (cases "get_or (batches (ensure_user_structure (Some c))) [] = []")
    case True
    then show ?thesis using e all
      by (simp add: undo_last_batch_def ledger_inv_def clients_all_def get_or_def)
  next
    case False
    let ?bs = "get_or (batches (ensure_user_structure (Some c))) []"
    let ?rec = "get_or (dict_get ?bs (last (sort (dict_keys ?bs)))) []"
    let ?s = "get_or (AllStats (ensure_user_structure (Some c))) empty_stats"
    obtain cd' s' where u: "undo_record ?rec cd ?s = (cd', s')"
      by (cases "undo_record ?rec cd ?s")
    have "list_all (\<lambda>(client_id, node). node_inv False node) cd'"
      using undo_record_inv [OF all u] .
    moreover have "ClientData (undo_last_batch (Some c)) = Some cd'"
      using False u e by (simp add: undo_last_batch_def Let_def get_or_def)
    ultimately show ?thesis by (simp add: ledger_inv_def clients_all_def get_or_def)
  qed
qed

lemma reachable_ledger_inv: "reachable c \<Longrightarrow> ledger_inv False c"
proof (induction rule: reachable.induct)
  case start
  show ?case by (rule ledger_inv_start)
next
  case (addClient c lend_date collection_day c')
  then show ?case using addClient_ledger_inv by blast
next
  case (postEntry c client_id amount date_str status c')
  then show ?case using postEntry_ledger_inv by blast
next
  case (sweepToday c today_date today_weekday c')
  then show ?case using sweep_ledger_inv by blast
next
  case (undoLastBatch c)
  then show ?case using undo_ledger_inv by blast
qed

lemma reachable_no_undo_ledger_inv: "reachable_no_undo c \<Longrightarrow> ledger_inv True c"
proof (induction rule: reachable_no_undo.induct)
  case start
  show ?case by (rule ledger_inv_start)
next
  case (addClient c lend_date collection_day c')
  then show ?case using addClient_ledger_inv by blast
next
  case (postEntry c client_id amount date_str status c')
  then show ?case using postEntry_ledger_inv by blast
next
  case (sweepToday c today_date today_weekday c')
  then show ?case using sweep_ledger_inv by blast
qed

lemma node_inv_weeks_paid_ok: "node_inv dense node \<Longrightarrow> weeks_paid_ok node"
  by (auto simp: node_inv_def weeks_paid_ok_def stat_ok_def split: option.splits)

lemma clients_all_mono:
  "clients_all P c \<Longrightarrow> (\<And>node. P node \<Longrightarrow> Q node) \<Longrightarrow> clients_all Q c"
  by (auto simp: clients_all_def list_all_iff)

lemma reachable_no_undo_ledger_p1_swept: "reachable_no_undo ledger_p1_swept"
  using reachable_no_undo.sweepToday
          [OF reachable_no_undo.addClient [OF reachable_no_undo.start add_client_start]
              sweep_ledger_p1] .

lemma week_key_1: "week_key 1 = ''week1''"
  by (simp add: week_key_def str_int_def str_nat.simps digit_char_def)

lemma gap_not_dense: "\<not> weeks_dense [(''week2'', e)]"
proof -
  have "[1..<Suc (length [(''week2'', e)])] = [1]" by simp
  then have "map (\<lambda>i. week_key (int i)) [1..<Suc (length [(''week2'', e)])] = [''week1'']"
    by (simp add: week_key_1)
  then show ?thesis by (simp add: weeks_dense_def dict_keys_def)
qed

text \<open>
  Claim C4 as stated fails. The ledger \<open>ledger_gap\<close> is reachable: register \<open>P1\<close>,
  sweep Monday 2024-01-01 (creates \<open>week1\<close>), post a paid entry (\<open>week2\<close>), undo the
  sweep (deletes \<open>week1\<close>). Its client holds the single key \<open>week2\<close>, so the keys are
  not \<open>week1, \<dots>, weekN\<close>.
\<close>

theorem weeks_dense_counterexample:
  "reachable ledger_gap \<and> \<not> clients_all client_weeks_ok ledger_gap"
  using reachable_ledger_gap
  by (simp add: ledger_gap_def clients_all_def client_weeks_ok_def get_or_def gap_not_dense)

text \<open>
  Claim C4, amended. In every reachable ledger every client record has
  \<open>0 \<le> WeeksPaid \<le> 20\<close> and its \<open>collectionData\<close> keys are distinct keys \<open>week<k>\<close>
  with \<open>1 \<le> k \<le> 20\<close>. In every ledger reached without \<open>undo_last_batch\<close> the keys
  are moreover exactly \<open>week1, \<dots>, weekN\<close> for \<open>N\<close> the number of entries.
\<close>

theorem reachable_weeks:
  "(reachable c \<longrightarrow> clients_all client_keys_ok c)
   \<and> (reachable_no_undo c \<longrightarrow> clients_all client_weeks_ok c)"
proof (intro conjI impI)
  assume "reachable c"
  then have "clients_all (node_inv False) c"
    using reachable_ledger_inv by (simp add: ledger_inv_def)
  then show "clients_all client_keys_ok c"
    by (rule clients_all_mono)
       (simp add: client_keys_ok_def node_inv_weeks_paid_ok, simp add: node_inv_def)
next
  assume "reachable_no_undo c"
  then have "clients_all (node_inv True) c"
    using reachable_no_undo_ledger_inv by (simp add: ledger_inv_def)
  then show "clients_all client_weeks_ok c"
    by (rule clients_all_mono)
       (simp add: client_weeks_ok_def node_inv_weeks_paid_ok,
        simp add: node_inv_def keys_in_order_dense)
qed

theorem reachable_weeks_witness:
  "reachable ledger_gap \<and> clients_all client_keys_ok ledger_gap
   \<and> reachable_no_undo ledger_p1_swept \<and> clients_all client_weeks_ok ledger_p1_swept"
  using reachable_weeks [of ledger_gap] reachable_weeks [of ledger_p1_swept]
    reachable_ledger_gap reachable_no_undo_ledger_p1_swept
  by simp

section \<open>The sweep on a pending entry\<close>

lemma lower_Active: "lower ''Active'' = ''active''"
  by (simp add: lower_def lower_char_def)

lemma lower_pending: "lower ''pending'' \<noteq> ''paid''"
  by (simp add: lower_def lower_char_def)

lemma week_key_nonempty: "week_key n \<noteq> []"
  by (simp add: week_key_def)

lemma close_if_done_WeeksPaid:
  "close_if_done stat s = (stat', s') \<Longrightarrow> WeeksPaid stat' = WeeksPaid stat"
  by (auto simp: close_if_done_def split: if_splits)

lemma sweep_client_pending:
  assumes st: "Stat node = Some stat" and act: "Status stat = Some ''Active''"
    and day: "CollectionDay stat = Some today_weekday"
    and found: "find_today_entry (get_or (collectionData node) []) today_date = Some (week_key n)"
    and ent: "dict_get (get_or (collectionData node) []) (week_key n) = Some entry"
    and pend: "entryStatus entry = Some ''pending''"
  shows "\<exists>node' stat' s'.
     sweep_client today_date today_weekday client_id node s r
       = Inr (node', s', dict_set r client_id \<lparr>action = ''updated'', week = n\<rparr>)
     \<and> collectionData node' = Some (dict_set (get_or (collectionData node) []) (week_key n)
                                       (entry\<lparr>entryStatus := Some ''paid''\<rparr>))
     \<and> Stat node' = Some stat'
     \<and> WeeksPaid stat' = Some (get_or (WeeksPaid stat) 0 + 1)"
proof -
  let ?coll = "get_or (collectionData node) []"
  let ?stat1 = "stat\<lparr>WeeksPaid := Some (get_or (WeeksPaid stat) 0 + 1),
                       TotalAmountPaid := Some (get_or (TotalAmountPaid stat) 0 + 600)\<rparr>"
  obtain stat2 s' where c: "close_if_done ?stat1 s = (stat2, s')"
    by (cases "close_if_done ?stat1 s")
  have ne: "stat \<noteq> empty_stat" using act by (auto simp: empty_stat_def)
  have pi: "py_int (remove_week (week_key n)) = Some n"
    by (simp add: remove_week_week_key py_int_str_int)
  have up: "sweep_update client_id (week_key n) node stat ?coll s r
      = Inr (node\<lparr>collectionData := Some (dict_set ?coll (week_key n)
                                            (entry\<lparr>entryStatus := Some ''paid''\<rparr>)),
                  Stat := Some stat2\<rparr>, s',
             dict_set r client_id \<lparr>action = ''updated'', week = n\<rparr>)"
    using ent pend c pi lower_pending
    by (simp add: sweep_update_def Let_def get_or_def)
  have "sweep_client today_date today_weekday client_id node s r
      = sweep_update client_id (week_key n) node stat ?coll s r"
    using st ne act day found lower_Active week_key_nonempty
    by (simp add: sweep_client_def stat_falsy_def Let_def get_or_def)
  moreover have "WeeksPaid stat2 = Some (get_or (WeeksPaid stat) 0 + 1)"
    using close_if_done_WeeksPaid [OF c] by simp
  ultimately show ?thesis using up by simp
qed

lemma sweep_client_receipt_other:
  assumes "k \<noteq> client_id" and "sweep_client td wd k node s r = Inr (node', s', r')"
  shows "dict_get r' client_id = dict_get r client_id"
  using assms
  by (auto simp: sweep_client_def sweep_update_def sweep_create_def Let_def dict_get_dict_set
           split: if_splits option.splits prod.splits)

lemma sweep_clients_receipt_other:
  "client_id \<notin> fst ` set cd \<Longrightarrow> sweep_clients td wd cd s r = Inr (cd', s', r')
   \<Longrightarrow> dict_get r' client_id = dict_get r client_id"
proof (induction cd arbitrary: s r cd' s' r')
  case Nil
  then show ?case by simp
next
  case (Cons p cd)
  obtain k node where p: "p = (k, node)" by (cases p)
  from Cons.prems(2) obtain node1 s1 r1 rest' where
    1: "sweep_client td wd k node s r = Inr (node1, s1, r1)" and
    2: "sweep_clients td wd cd s1 r1 = Inr (rest', s', r')"
    unfolding p by (auto split: sum.splits prod.splits)
  have "k \<noteq> client_id" using Cons.prems(1) p by auto
  then have "dict_get r1 client_id = dict_get r client_id"
    using sweep_client_receipt_other 1 by blast
  moreover have "dict_get r' client_id = dict_get r1 client_id"
    using Cons.IH [OF _ 2] Cons.prems(1) by simp
  ultimately show ?case by simp
qed

lemma sweep_clients_at:
  assumes "sweep_clients td wd cd s r = Inr (cd', s', r')"
    and "distinct (map fst cd)" and "(client_id, node) \<in> set cd"
  shows "\<exists>s0 r0 node' s1 r1.
     sweep_client td wd client_id node s0 r0 = Inr (node', s1, r1)
     \<and> dict_get cd' client_id = Some node'
     \<and> dict_get r' client_id = dict_get r1 client_id"
  using assms
proof (induction cd arbitrary: s r cd' s' r')
  case Nil
  then show ?case by simp
next
  case (Cons p cd)
  obtain k nodek where p: "p = (k, nodek)" by (cases p)
  from Cons.prems(1) obtain node1 s1 r1 rest' where
    1: "sweep_client td wd k nodek s r = Inr (node1, s1, r1)" and
    2: "sweep_clients td wd cd s1 r1 = Inr (rest', s', r')" and
    3: "cd' = (k, node1) # rest'"
    unfolding p by (auto split: sum.splits prod.splits)
  show ?case
  proof (cases "(client_id, node) = (k, nodek)")
    case True
    have "client_id \<notin> fst ` set cd" using Cons.prems(2) p True by auto
    then have "dict_get r' client_id = dict_get r1 client_id"
      using sweep_clients_receipt_other 2 by blast
    then show ?thesis using True 1 3 by (auto simp: dict_get_def)
  next
    case False
    then have mem: "(client_id, node) \<in> set cd" using Cons.prems(3) p by auto
    have "k \<noteq> client_id" using Cons.prems(2) p mem by (auto simp: image_iff)
    moreover obtain s0 r0 node' sa ra where
      "sweep_client td wd client_id node s0 r0 = Inr (node', sa, ra)"
      "dict_get rest' client_id = Some node'" "dict_get r' client_id = dict_get ra client_id"
      using Cons.IH [OF 2 _ mem] Cons.prems(2) by auto
    ultimately show ?thesis using 3 by (auto simp: dict_get_def)
  qed
qed

text \<open>
  What the updated branch credits: the constant 600, whatever the entry's \<open>Amount\<close>.
\<close>

lemma sweep_update_credits_600:
  assumes "sweep_update client_id key node stat coll s r = Inr (node', s', r')"
    and "node' \<noteq> node"
  shows "\<exists>stat'. Stat node' = Some stat'
           \<and> TotalAmountPaid stat' = Some (get_or (TotalAmountPaid stat) 0 + 600)"
  using assms
  by (auto simp: sweep_update_def Let_def close_if_done_def
           split: if_splits option.splits prod.splits)

lemma sweep_marked_gate:
  "batch_mark_today ''2024-01-01'' ''MON'' (Some ledger_pending_500_marked)
     = Inr ledger_pending_500_marked"
  by (simp add: ledger_pending_500_marked_def eval_defs)

lemma reachable_ledger_pending_500_marked: "reachable ledger_pending_500_marked"
proof -
  let ?m0 = "\<lparr>AllStats = Some zero_stats, ClientData = Some [],
              batches = Some [(''2024-01-01'', [])], lastBatch = Some ()\<rparr>"
  let ?m1 = "\<lparr>AllStats = Some \<lparr>TotalLoans = Some 1, ActiveLoans = Some 1,
                                  ClosedLoans = Some 0\<rparr>,
              ClientData = Some [(''P1'', new_client ''P1'' ''2024-01-01'' ''MON'')],
              batches = Some [(''2024-01-01'', [])], lastBatch = Some ()\<rparr>"
  have 0: "batch_mark_today ''2024-01-01'' ''MON'' (Some (ensure_user_structure None)) = Inr ?m0"
    by (simp add: eval_defs)
  have 1: "txn_add_new_client ''2024-01-01'' ''MON'' (Some ?m0) = Inr ?m1"
    by (simp add: txn_add_new_client_def get_next_client_id_def scan_client_id.simps
          dict_has_def dict_keys_def client_key_Suc_0 zero_stats_def get_or_def Let_def)
  have 2: "txn_add_entry ''P1'' (JInt 500) ''2024-01-01'' ''pending'' (Some ?m1)
             = Inr ledger_pending_500_marked"
    by (simp add: ledger_pending_500_marked_def new_client_def eval_defs)
  show ?thesis
    using reachable.postEntry [OF reachable.addClient [OF reachable.sweepToday
            [OF reachable.start 0] 1] 2] .
qed

text \<open>
  Claim C2 as stated fails. In the reachable ledger \<open>ledger_pending_500_marked\<close> the
  client \<open>P1\<close> is Active, collects on Mondays and holds a pending entry dated
  2024-01-01, and \<open>batches\<close> already holds a receipt for that date. The sweep of Monday
  2024-01-01 returns the ledger as it is: the entry stays pending and nothing is
  credited.
\<close>

theorem sweep_gate_counterexample:
  "reachable ledger_pending_500_marked
   \<and> batch_mark_today ''2024-01-01'' ''MON'' (Some ledger_pending_500_marked)
       = Inr ledger_pending_500_marked"
  using reachable_ledger_pending_500_marked sweep_marked_gate by simp

text \<open>
  Claim C2, amended. When \<open>batches\<close> holds no receipt for today and the sweep returns,
  then for an Active client due today whose first entry dated today (the one
  \<open>find_today_entry\<close> returns) sits under \<open>week<n>\<close> and is pending, the sweep sets that
  entry's status to \<open>paid\<close>, adds one to \<open>WeeksPaid\<close>, and today's receipt maps the
  client to \<open>{action: updated, week: n}\<close>. The amount credited to \<open>TotalAmountPaid\<close> is
  not part of this statement.
\<close>

theorem sweep_flips_pending:
  assumes run: "batch_mark_today today_date today_weekday cur = Inr c'"
    and gate: "\<not> dict_has (get_or (batches (ensure_user_structure cur)) []) today_date"
    and cd: "ClientData (ensure_user_structure cur) = Some client_data"
    and dist: "distinct (dict_keys client_data)"
    and nd: "dict_get client_data client_id = Some node"
    and st: "Stat node = Some stat" and act: "Status stat = Some ''Active''"
    and day: "CollectionDay stat = Some today_weekday"
    and found: "find_today_entry (get_or (collectionData node) []) today_date = Some (week_key n)"
    and ent: "dict_get (get_or (collectionData node) []) (week_key n) = Some entry"
    and pend: "entryStatus entry = Some ''pending''"
  shows "\<exists>client_data' node' stat' bs receipt.
     ClientData c' = Some client_data'
     \<and> dict_get client_data' client_id = Some node'
     \<and> collectionData node' = Some (dict_set (get_or (collectionData node) []) (week_key n)
                                       (entry\<lparr>entryStatus := Some ''paid''\<rparr>))
     \<and> Stat node' = Some stat'
     \<and> WeeksPaid stat' = Some (get_or (WeeksPaid stat) 0 + 1)
     \<and> batches c' = Some bs
     \<and> dict_get bs today_date = Some receipt
     \<and> dict_get receipt client_id = Some \<lparr>action = ''updated'', week = n\<rparr>"
proof -
  let ?c = "ensure_user_structure cur"
  let ?bs = "get_or (batches ?c) []"
  obtain cd' s' r' where
    sw: "sweep_clients today_date today_weekday client_data (get_or (AllStats ?c) empty_stats) []
           = Inr (cd', s', r')"
    and c': "c' = ?c\<lparr>ClientData := Some cd', AllStats := Some s',
                     batches := Some (dict_set ?bs today_date r')\<rparr>"
    using run gate cd
    by (auto simp: batch_mark_today_def Let_def get_or_def split: sum.splits)
  have mem: "(client_id, node) \<in> set client_data" using nd by (rule dict_get_in_set)
  obtain s0 r0 node' s1 r1 where
    sc: "sweep_client today_date today_weekday client_id node s0 r0 = Inr (node', s1, r1)"
    and g: "dict_get cd' client_id = Some node'"
    and rr: "dict_get r' client_id = dict_get r1 client_id"
    using sweep_clients_at [OF sw _ mem] dist by (auto simp: dict_keys_def)
  obtain node2 stat' s2 where
    p: "sweep_client today_date today_weekday client_id node s0 r0
          = Inr (node2, s2, dict_set r0 client_id \<lparr>action = ''updated'', week = n\<rparr>)"
      "collectionData node2 = Some (dict_set (get_or (collectionData node) []) (week_key n)
                                       (entry\<lparr>entryStatus := Some ''paid''\<rparr>))"
      "Stat node2 = Some stat'"
      "WeeksPaid stat' = Some (get_or (WeeksPaid stat) 0 + 1)"
    using sweep_client_pending [OF st act day found ent pend, of client_id s0 r0] by blast
  have eq: "node' = node2" "r1 = dict_set r0 client_id \<lparr>action = ''updated'', week = n\<rparr>"
    using sc p(1) by auto
  have "dict_get r' client_id = Some \<lparr>action = ''updated'', week = n\<rparr>"
    using rr eq(2) by (simp add: dict_get_dict_set)
  moreover have "dict_get (dict_set ?bs today_date r') today_date = Some r'"
    by (simp add: dict_get_dict_set)
  ultimately show ?thesis using c' g eq(1) p(2,3,4) by auto
qed

theorem sweep_flips_pending_witness:
  "batch_mark_today ''2024-01-01'' ''MON'' (Some ledger_pending_500) = Inr ledger_pending_500_swept
   \<and> (\<exists>client_data' node' stat' bs receipt.
     ClientData ledger_pending_500_swept = Some client_data'
     \<and> dict_get client_data' ''P1'' = Some node'
     \<and> collectionData node' = Some [(''week1'',
           \<lparr>Amount = Some 500, date = Some ''2024-01-01'', entryStatus = Some ''paid''\<rparr>)]
     \<and> Stat node' = Some stat'
     \<and> WeeksPaid stat' = Some 1
     \<and> batches ledger_pending_500_swept = Some bs
     \<and> dict_get bs ''2024-01-01'' = Some receipt
     \<and> dict_get receipt ''P1'' = Some \<lparr>action = ''updated'', week = 1\<rparr>)"
proof -
  let ?entry = "\<lparr>Amount = Some 500, date = Some ''2024-01-01'', entryStatus = Some ''pending''\<rparr>"
  let ?stat = "\<lparr>ClientName = Some ''P1'', CollectionDay = Some ''MON'',
                 LendDate = Some ''2024-01-01'', Status = Some ''Active'',
                 TotalAmountPaid = Some 0, WeeksPaid = Some 0\<rparr>"
  let ?node = "\<lparr>Stat = Some ?stat, collectionData = Some [(''week1'', ?entry)]\<rparr>"
  let ?cd = "[(''P1'', ?node)]"
  have gate: "\<not> dict_has (get_or (batches (ensure_user_structure (Some ledger_pending_500))) [])
                ''2024-01-01''"
    by (simp add: ledger_pending_500_def eval_defs)
  have cd: "ClientData (ensure_user_structure (Some ledger_pending_500)) = Some ?cd"
    by (simp add: ledger_pending_500_def eval_defs)
  have dist: "distinct (dict_keys ?cd)" by (simp add: dict_keys_def)
  have nd: "dict_get ?cd ''P1'' = Some ?node" by (simp add: dict_get_def)
  have st: "Stat ?node = Some ?stat" by simp
  have act: "Status ?stat = Some ''Active''" by simp
  have day: "CollectionDay ?stat = Some ''MON''" by simp
  have found: "find_today_entry (get_or (collectionData ?node) []) ''2024-01-01''
                 = Some (week_key 1)"
    by (simp add: get_or_def week_key_1)
  have ent: "dict_get (get_or (collectionData ?node) []) (week_key 1) = Some ?entry"
    by (simp add: get_or_def week_key_1 dict_get_def)
  have pend: "entryStatus ?entry = Some ''pending''" by simp
  have "\<exists>client_data' node' stat' bs receipt.
     ClientData ledger_pending_500_swept = Some client_data'
     \<and> dict_get client_data' ''P1'' = Some node'
     \<and> collectionData node' = Some (dict_set (get_or (collectionData ?node) []) (week_key 1)
                                       (?entry\<lparr>entryStatus := Some ''paid''\<rparr>))
     \<and> Stat node' = Some stat'
     \<and> WeeksPaid stat' = Some (get_or (WeeksPaid ?stat) 0 + 1)
     \<and> batches ledger_pending_500_swept = Some bs
     \<and> dict_get bs ''2024-01-01'' = Some receipt
     \<and> dict_get receipt ''P1'' = Some \<lparr>action = ''updated'', week = 1\<rparr>"
    by (rule sweep_flips_pending [OF sweep_pending_500 gate cd dist nd st act day found ent pend])
  then show ?thesis using sweep_pending_500 by (simp add: get_or_def week_key_1)
qed

end
